theory Spec2Isabelle
  imports Main "HOL-Library.Stream"
begin

text \<open>
  The game of \<open>project/WhoIsTheSpyDemo/WhoIsTheSpy.py\<close>: four agents, one of them the
  undercover player, describe their word, vote, and are judged, round after round. Each
  node of the graph is a function from the game state and the outside world (the
  generation service and the random generator) to an exception or a new state and world.
\<close>

section \<open>Python values\<close>

text \<open>
  A Python \<open>str\<close> is a list of Unicode code points, so that \<open>len\<close> counts what Python
  counts. ASCII literals are written \<open>ascii ''agent1''\<close>; the Chinese literals of the
  source are written as their code points in hexadecimal.
\<close>

type_synonym pystr = "nat list"

definition ascii :: "string \<Rightarrow> pystr" where
  "ascii s = map of_char s"

text \<open>
  What \<open>json.loads\<close> can return. A float keeps the text of its literal: the program
  never computes with it. An object keeps its keys in insertion order.
\<close>

datatype json =
    JNull
  | JBool bool
  | JInt int
  | JFloat pystr
  | JStr pystr
  | JArr "json list"
  | JObj "(pystr \<times> json) list"

datatype py_error =
    ServiceError
  | JSONDecodeError
  | KeyError
  | TypeError
  | AttributeError
  | IndexError
  | ValueError

text \<open>Sequencing of statements, any of which may raise.\<close>

definition and_then :: "py_error + 'a \<Rightarrow> ('a \<Rightarrow> py_error + 'b) \<Rightarrow> py_error + 'b" where
  "and_then m f = (case m of Inl e \<Rightarrow> Inl e | Inr x \<Rightarrow> f x)"

text \<open>\<open>except (json.JSONDecodeError, KeyError)\<close>: the only two exceptions the phases catch.\<close>

definition caught :: "py_error \<Rightarrow> bool" where
  "caught e \<longleftrightarrow> e = JSONDecodeError \<or> e = KeyError"

text \<open>\<open>d[k]\<close> on a value decoded from JSON: only an object can be indexed by a string.\<close>

fun getitem :: "json \<Rightarrow> pystr \<Rightarrow> py_error + json" where
  "getitem (JObj kvs) k = (case map_of kvs k of None \<Rightarrow> Inl KeyError | Some v \<Rightarrow> Inr v)"
| "getitem _ k = Inl TypeError"

text \<open>\<open>len(v)\<close>: defined on strings, lists and dicts.\<close>

fun py_len :: "json \<Rightarrow> py_error + nat" where
  "py_len (JStr s) = Inr (length s)"
| "py_len (JArr vs) = Inr (length vs)"
| "py_len (JObj kvs) = Inr (length (remdups (map fst kvs)))"
| "py_len _ = Inl TypeError"

text \<open>The code points on which \<open>str.isspace\<close> is true; \<open>str.strip()\<close> removes them at both ends.\<close>

definition py_isspace :: "nat \<Rightarrow> bool" where
  "py_isspace c \<longleftrightarrow> c \<in> set [0x9, 0xA, 0xB, 0xC, 0xD, 0x1C, 0x1D, 0x1E, 0x1F, 0x20, 0x85, 0xA0,
     0x1680, 0x2000, 0x2001, 0x2002, 0x2003, 0x2004, 0x2005, 0x2006, 0x2007, 0x2008, 0x2009,
     0x200A, 0x2028, 0x2029, 0x202F, 0x205F, 0x3000]"

definition strip :: "pystr \<Rightarrow> pystr" where
  "strip s = rev (dropWhile py_isspace (rev (dropWhile py_isspace s)))"

text \<open>\<open>v.strip()\<close>: only a string has the method.\<close>

fun py_strip :: "json \<Rightarrow> py_error + pystr" where
  "py_strip (JStr s) = Inr (strip s)"
| "py_strip _ = Inl AttributeError"

text \<open>\<open>str(n)\<close> of an integer, in decimal.\<close>

fun str_nat :: "nat \<Rightarrow> pystr" where
  "str_nat n = (if n < 10 then [0x30 + n] else str_nat (n div 10) @ [0x30 + n mod 10])"

definition str_int :: "int \<Rightarrow> pystr" where
  "str_int i = (if i < 0 then 0x2D # str_nat (nat (- i)) else str_nat (nat i))"

text \<open>
  A value inside an f-string: a string is inserted as it is; any other value goes through
  Python's built-in \<open>str\<close>, which is taken as the parameter \<open>to_str\<close>.
\<close>

definition py_format :: "(json \<Rightarrow> pystr) \<Rightarrow> json \<Rightarrow> pystr" where
  "py_format to_str v = (case v of JStr s \<Rightarrow> s | _ \<Rightarrow> to_str v)"

text \<open>
  \<open>textwrap.shorten(text, width)\<close> on a text that is a single chunk (no whitespace, no
  break point), which is what the voting phase passes: the text when it fits, the
  placeholder alone otherwise.
\<close>

definition shorten :: "pystr \<Rightarrow> nat \<Rightarrow> pystr" where
  "shorten text width = (if length text \<le> width then text else ascii ''[...]'')"

text \<open>A dict keeps insertion order: \<open>d[k] = v\<close> replaces in place or appends.\<close>

fun dict_set :: "('k \<times> 'v) list \<Rightarrow> 'k \<Rightarrow> 'v \<Rightarrow> ('k \<times> 'v) list" where
  "dict_set [] k v = [(k, v)]"
| "dict_set ((k', v') # kvs) k v =
     (if k' = k then (k, v) # kvs else (k', v') # dict_set kvs k v)"

section \<open>The outside world\<close>

text \<open>
  The prompt of each call, reduced to its variable parts: the round and history context
  (speech), the speech context (vote), and the player's role and word.
\<close>

datatype request =
    WordsRequest
  | SpeechRequest int pystr pystr json
  | VoteRequest pystr pystr json

text \<open>
  \<open>chain.invoke(...)\<close> either raises or returns a text; the text is classified by what
  \<open>json.loads(text.strip())\<close> makes of it.
\<close>

datatype response = NotJson | Json json

datatype reply = ServiceRaises | Returns response

text \<open>
  The generation service answers each call in turn, as it likes, knowing the request;
  the random generator delivers one number for each \<open>random.choice\<close>.
\<close>

record world =
  llm :: "(request \<Rightarrow> reply) stream"
  rng :: "nat stream"

definition chain_invoke :: "request \<Rightarrow> world \<Rightarrow> py_error + (response \<times> world)" where
  "chain_invoke req w =
     (case shd (llm w) req of
        ServiceRaises \<Rightarrow> Inl ServiceError
      | Returns out \<Rightarrow> Inr (out, w\<lparr>llm := stl (llm w)\<rparr>))"

fun json_loads :: "response \<Rightarrow> py_error + json" where
  "json_loads NotJson = Inl JSONDecodeError"
| "json_loads (Json v) = Inr v"

text \<open>\<open>random.choice(seq)\<close>: an index drawn in \<open>range(len(seq))\<close>; IndexError on an empty list.\<close>

definition random_choice :: "'a list \<Rightarrow> world \<Rightarrow> py_error + ('a \<times> world)" where
  "random_choice seq w =
     (if seq = [] then Inl IndexError
      else Inr (seq ! (shd (rng w) mod length seq), w\<lparr>rng := stl (rng w)\<rparr>))"

section \<open>The game state\<close>

record GameState =
  civilian_word :: json
  undercover_word :: json
  role_assignment :: "(pystr \<times> (pystr \<times> json)) list"
  speeches :: "(pystr \<times> json) list"
  history_speeches :: "(pystr \<times> json) list list"
  speech_reasoning :: "(pystr \<times> json) list"
  votes :: "(pystr \<times> pystr) list"
  vote_reasoning :: "(pystr \<times> json) list"
  game_status :: pystr
  winner :: pystr
  eliminated :: "pystr list"
  round_no :: int

definition init_game_state :: GameState where
  "init_game_state =
     \<lparr>civilian_word = JStr [], undercover_word = JStr [], role_assignment = [],
      speeches = [], history_speeches = [], speech_reasoning = [], votes = [],
      vote_reasoning = [], game_status = ascii ''running'', winner = [],
      eliminated = [], round_no = 1\<rparr>"

text \<open>The two role tags of the source: the civilians and the undercover player.\<close>

definition civilian_tag :: pystr where
  "civilian_tag = [0x5E73, 0x6C11]"

definition undercover_tag :: pystr where
  "undercover_tag = [0x5367, 0x5E95]"

section \<open>Node 1: generate\_words\<close>

definition fallback_pairs :: "(pystr \<times> pystr) list" where
  "fallback_pairs =
     [([0x5976, 0x8336], [0x679C, 0x6C41]),
      ([0x7259, 0x5237], [0x7259, 0x818F]),
      ([0x7C73, 0x996D], [0x9762, 0x6761]),
      ([0x624B, 0x673A], [0x5E73, 0x677F]),
      ([0x7BEE, 0x7403], [0x8DB3, 0x7403]),
      ([0x5496, 0x5561], [0x7EA2, 0x8336])]"

text \<open>The body of the \<open>try\<close> block.\<close>

definition try_words :: "response \<Rightarrow> py_error + (json \<times> json)" where
  "try_words result =
     and_then (json_loads result) (\<lambda>word_data.
     and_then (getitem word_data (ascii ''civilian'')) (\<lambda>civilian_word.
     and_then (getitem word_data (ascii ''undercover'')) (\<lambda>undercover_word.
       Inr (civilian_word, undercover_word))))"

definition generate_words :: "GameState \<Rightarrow> world \<Rightarrow> py_error + (GameState \<times> world)" where
  "generate_words state w =
     (case chain_invoke WordsRequest w of
        Inl e \<Rightarrow> Inl e
      | Inr (result, w1) \<Rightarrow>
          (case try_words result of
             Inr (c, u) \<Rightarrow> Inr (state\<lparr>civilian_word := c, undercover_word := u\<rparr>, w1)
           | Inl e \<Rightarrow>
               if caught e then
                 (case random_choice fallback_pairs w1 of
                    Inl e' \<Rightarrow> Inl e'
                  | Inr ((c, u), w2) \<Rightarrow>
                      Inr (state\<lparr>civilian_word := JStr c, undercover_word := JStr u\<rparr>, w2))
               else Inl e))"

section \<open>Node 2: assign\_roles\<close>

definition agents :: "pystr list" where
  "agents = [ascii ''agent1'', ascii ''agent2'', ascii ''agent3'', ascii ''agent4'']"

text \<open>The \<open>for\<close> loop over the agents, writing one entry of the assignment each.\<close>

fun assign_loop ::
  "pystr \<Rightarrow> json \<Rightarrow> json \<Rightarrow> pystr list \<Rightarrow> (pystr \<times> (pystr \<times> json)) list
     \<Rightarrow> (pystr \<times> (pystr \<times> json)) list" where
  "assign_loop undercover cw uw [] ra = ra"
| "assign_loop undercover cw uw (agent # rest) ra =
     assign_loop undercover cw uw rest
       (if agent = undercover then dict_set ra agent (undercover_tag, uw)
        else dict_set ra agent (civilian_tag, cw))"

definition assign_roles :: "GameState \<Rightarrow> world \<Rightarrow> py_error + (GameState \<times> world)" where
  "assign_roles state w =
     (case random_choice agents w of
        Inl e \<Rightarrow> Inl e
      | Inr (undercover, w1) \<Rightarrow>
          Inr (state\<lparr>role_assignment :=
                 assign_loop undercover (civilian_word state) (undercover_word state) agents
                   (role_assignment state)\<rparr>, w1))"

section \<open>Node 3: generate\_speeches\<close>

text \<open>The literals of the speech phase: the padding of a short speech, by role.\<close>

definition pad_civilian :: pystr where
  "pad_civilian =
     [0xFF0C, 0x662F, 0x65E5, 0x5E38, 0x751F, 0x6D3B, 0x4E2D, 0x5F88, 0x5E38, 0x89C1,
      0x7684, 0x7269, 0x54C1, 0xFF0C, 0x4F7F, 0x7528, 0x573A, 0x666F, 0x975E, 0x5E38,
      0x5E7F, 0x6CDB, 0xFF0C, 0x51E0, 0x4E4E, 0x6BCF, 0x4E2A, 0x4EBA, 0x90FD, 0x63A5,
      0x89E6, 0x8FC7]"

definition pad_undercover :: pystr where
  "pad_undercover =
     [0xFF0C, 0x5927, 0x5BB6, 0x5728, 0x751F, 0x6D3B, 0x4E2D, 0x7ECF, 0x5E38, 0x80FD,
      0x89C1, 0x5230, 0x6216, 0x7528, 0x5230, 0xFF0C, 0x4E0D, 0x540C, 0x573A, 0x666F,
      0x4E0B, 0x7684, 0x7528, 0x6CD5, 0x57FA, 0x672C, 0x4E00, 0x81F4, 0xFF0C, 0x4E0D,
      0x5BB9, 0x6613, 0x533A, 0x5206]"

text \<open>The fallback speech and reason of each role, with the round number inserted.\<close>

definition fallback_speech_civilian :: "int \<Rightarrow> pystr" where
  "fallback_speech_civilian current_round =
     [0x7B2C] @ str_int current_round @
     [0x8F6E, 0x53D1, 0x8A00, 0xFF1A, 0x8FD9, 0x662F, 0x65E5, 0x5E38, 0x80FD, 0x7528,
      0x5230, 0x7684, 0x4E1C, 0x897F, 0xFF0C, 0x4F7F, 0x7528, 0x9891, 0x7387, 0x5F88,
      0x9AD8, 0xFF0C, 0x4E0D, 0x540C, 0x54C1, 0x724C, 0x7684, 0x6B3E, 0x5F0F, 0x7565,
      0x6709, 0x5DEE, 0x5F02, 0xFF0C, 0x4F46, 0x6838, 0x5FC3, 0x529F, 0x80FD, 0x662F,
      0x4E00, 0x6837, 0x7684, 0xFF0C, 0x51E0, 0x4E4E, 0x6BCF, 0x4E2A, 0x5BB6, 0x5EAD,
      0x90FD, 0x6709, 0x8FD9, 0x7C7B, 0x7269, 0x54C1, 0xFF0C, 0x662F, 0x751F, 0x6D3B,
      0x4E2D, 0x4E0D, 0x53EF, 0x6216, 0x7F3A, 0x7684, 0x5E38, 0x7528, 0x54C1]"

definition fallback_reason_civilian :: "int \<Rightarrow> pystr" where
  "fallback_reason_civilian current_round =
     [0x5E73, 0x6C11, 0x515C, 0x5E95, 0x53D1, 0x8A00, 0xFF0C, 0x7B2C] @ str_int current_round @
     [0x8F6E, 0x907F, 0x514D, 0x91CD, 0x590D, 0x524D, 0x8F6E, 0xFF0C, 0x5B8C, 0x6574,
      0x63CF, 0x8FF0, 0x7269, 0x54C1, 0x6838, 0x5FC3, 0x7279, 0x5F81, 0xFF0C, 0x4E0D,
      0x505A, 0x622A, 0x65AD, 0x5904, 0x7406]"

definition fallback_speech_undercover :: "int \<Rightarrow> pystr" where
  "fallback_speech_undercover current_round =
     [0x7B2C] @ str_int current_round @
     [0x8F6E, 0x53D1, 0x8A00, 0xFF1A, 0x8FD9, 0x662F, 0x5927, 0x5BB6, 0x90FD, 0x719F,
      0x6089, 0x7684, 0x7269, 0x54C1, 0xFF0C, 0x5E73, 0x65F6, 0x4F7F, 0x7528, 0x573A,
      0x666F, 0x5F88, 0x591A, 0xFF0C, 0x5916, 0x89C2, 0x548C, 0x529F, 0x80FD, 0x90FD,
      0x6BD4, 0x8F83, 0x76F8, 0x4F3C, 0xFF0C, 0x5F88, 0x96BE, 0x5FEB, 0x901F, 0x533A,
      0x5206, 0x4E0D, 0x540C, 0x7C7B, 0x578B, 0xFF0C, 0x751F, 0x6D3B, 0x4E2D, 0x968F,
      0x5904, 0x53EF, 0x89C1, 0xFF0C, 0x51E0, 0x4E4E, 0x6BCF, 0x4E2A, 0x4EBA, 0x90FD,
      0x4F7F, 0x7528, 0x8FC7, 0x8FD9, 0x7C7B, 0x7269, 0x54C1]"

definition fallback_reason_undercover :: "int \<Rightarrow> pystr" where
  "fallback_reason_undercover current_round =
     [0x5367, 0x5E95, 0x515C, 0x5E95, 0x53D1, 0x8A00, 0xFF0C, 0x7B2C] @ str_int current_round @
     [0x8F6E, 0x4F2A, 0x88C5, 0x5E73, 0x6C11, 0xFF0C, 0x5B8C, 0x6574, 0x6A21, 0x7CCA,
      0x63CF, 0x8FF0, 0x7279, 0x5F81, 0x907F, 0x514D, 0x66B4, 0x9732, 0x8EAB, 0x4EFD,
      0xFF0C, 0x4E0D, 0x622A, 0x65AD]"

text \<open>
  The history context of the prompt: a header, then for each past round its number and
  one line \<open>- agent: speech\<close> for each speaker who is not in \<open>eliminated\<close>, then
  an empty line. Empty when there is no history.
\<close>

definition history_round ::
  "(json \<Rightarrow> pystr) \<Rightarrow> pystr list \<Rightarrow> nat \<times> (pystr \<times> json) list \<Rightarrow> pystr" where
  "history_round to_str elim ir =
     (case ir of (idx, round_speeches) \<Rightarrow>
        [0x7B2C] @ str_nat idx @ [0x8F6E, 0x53D1, 0x8A00, 0xFF1A, 0xA] @
        concat (map (\<lambda>(agent, speech).
                       ascii ''- '' @ agent @ [0xFF1A] @ py_format to_str speech @ [0xA])
                 (filter (\<lambda>(agent, speech). agent \<notin> set elim) round_speeches)))"

definition history_context :: "(json \<Rightarrow> pystr) \<Rightarrow> GameState \<Rightarrow> pystr" where
  "history_context to_str state =
     (if history_speeches state = [] then []
      else [0x3010, 0x5386, 0x53F2, 0x53D1, 0x8A00, 0x8BB0, 0x5F55, 0x3011, 0xA] @
           concat (map (history_round to_str (eliminated state))
                     (enumerate 1 (history_speeches state))) @
           [0xA])"

text \<open>The body of the \<open>try\<close> block for one player: the speech, padded when short, and the reason.\<close>

definition try_speech :: "(json \<Rightarrow> pystr) \<Rightarrow> pystr \<Rightarrow> response \<Rightarrow> py_error + (json \<times> json)" where
  "try_speech to_str role out =
     and_then (json_loads out) (\<lambda>speech_data.
     and_then (getitem speech_data (ascii ''speech'')) (\<lambda>raw_speech.
     and_then (getitem speech_data (ascii ''reason'')) (\<lambda>raw_reason.
     and_then (py_len raw_speech) (\<lambda>n.
       Inr (if n < 10 then
              (if role = civilian_tag
               then JStr (py_format to_str raw_speech @ pad_civilian)
               else JStr (py_format to_str raw_speech @ pad_undercover))
            else raw_speech,
            raw_reason)))))"

text \<open>The \<open>try\<close> with its \<open>except\<close>: the fallback of the role on a caught exception.\<close>

definition speech_of ::
  "(json \<Rightarrow> pystr) \<Rightarrow> int \<Rightarrow> pystr \<Rightarrow> response \<Rightarrow> py_error + (json \<times> json)" where
  "speech_of to_str current_round role out =
     (case try_speech to_str role out of
        Inr sr \<Rightarrow> Inr sr
      | Inl e \<Rightarrow>
          if caught e then
            (if role = civilian_tag
             then Inr (JStr (fallback_speech_civilian current_round),
                       JStr (fallback_reason_civilian current_round))
             else Inr (JStr (fallback_speech_undercover current_round),
                       JStr (fallback_reason_undercover current_round)))
          else Inl e)"

text \<open>The loop over \<open>role_assignment.items()\<close>, skipping the eliminated players.\<close>

fun speeches_loop ::
  "(json \<Rightarrow> pystr) \<Rightarrow> int \<Rightarrow> pystr \<Rightarrow> pystr list \<Rightarrow> (pystr \<times> (pystr \<times> json)) list
     \<Rightarrow> (pystr \<times> json) list \<Rightarrow> (pystr \<times> json) list \<Rightarrow> world
     \<Rightarrow> py_error + ((pystr \<times> json) list \<times> (pystr \<times> json) list \<times> world)" where
  "speeches_loop to_str current_round ctx elim [] speeches' reasoning w =
     Inr (speeches', reasoning, w)"
| "speeches_loop to_str current_round ctx elim ((agent, (role, word)) # rest) speeches' reasoning w =
     (if agent \<in> set elim
      then speeches_loop to_str current_round ctx elim rest speeches' reasoning w
      else
        (case chain_invoke (SpeechRequest current_round ctx role word) w of
           Inl e \<Rightarrow> Inl e
         | Inr (out, w1) \<Rightarrow>
             (case speech_of to_str current_round role out of
                Inl e \<Rightarrow> Inl e
              | Inr (speech, reason) \<Rightarrow>
                  speeches_loop to_str current_round ctx elim rest
                    (dict_set speeches' agent speech) (dict_set reasoning agent reason) w1)))"

definition generate_speeches ::
  "(json \<Rightarrow> pystr) \<Rightarrow> GameState \<Rightarrow> world \<Rightarrow> py_error + (GameState \<times> world)" where
  "generate_speeches to_str state w =
     (case speeches_loop to_str (round_no state) (history_context to_str state)
             (eliminated state) (role_assignment state) [] [] w of
        Inl e \<Rightarrow> Inl e
      | Inr (speeches', reasoning, w1) \<Rightarrow>
          Inr (state\<lparr>history_speeches := history_speeches state @ [speeches'],
                      speeches := speeches',
                      speech_reasoning := reasoning\<rparr>, w1))"

section \<open>Node 4: vote\_undercover\<close>

definition current_agents :: "GameState \<Rightarrow> pystr list" where
  "current_agents state =
     filter (\<lambda>a. a \<notin> set (eliminated state)) (map fst (role_assignment state))"

text \<open>\<open>sep.join(parts)\<close>.\<close>

fun join :: "pystr \<Rightarrow> pystr list \<Rightarrow> pystr" where
  "join sep [] = []"
| "join sep [x] = x"
| "join sep (x # y # ys) = x @ sep @ join sep (y # ys)"

text \<open>
  The speech context of the prompt: this round's speeches, then, when there is a history,
  a header and for each round but the last its number and one line for each speaker who
  is among the current agents.
\<close>

definition vote_history_round ::
  "(json \<Rightarrow> pystr) \<Rightarrow> pystr list \<Rightarrow> nat \<times> (pystr \<times> json) list \<Rightarrow> pystr" where
  "vote_history_round to_str cur ir =
     (case ir of (idx, round_speeches) \<Rightarrow>
        [0x7B2C] @ str_nat idx @ [0x8F6E, 0xFF1A, 0xA] @
        concat (map (\<lambda>(agent, speech).
                       ascii ''- '' @ agent @ [0xFF1A] @ py_format to_str speech @ [0xA])
                 (filter (\<lambda>(agent, speech). agent \<in> set cur) round_speeches)))"

definition speech_context :: "(json \<Rightarrow> pystr) \<Rightarrow> GameState \<Rightarrow> pystr" where
  "speech_context to_str state =
     [0x3010, 0x7B2C] @ str_int (round_no state) @ [0x8F6E, 0x53D1, 0x8A00, 0x3011, 0xA] @
     join [0xA] (map (\<lambda>(agent, speech). agent @ [0xFF1A] @ py_format to_str speech)
                   (speeches state)) @
     (if history_speeches state = [] then []
      else [0xA, 0xA, 0x3010, 0x5386, 0x53F2, 0x53D1, 0x8A00, 0x53C2, 0x8003, 0x3011, 0xA] @
           concat (map (vote_history_round to_str (current_agents state))
                     (enumerate 1 (butlast (history_speeches state)))))"

text \<open>The body of the \<open>try\<close> block for one voter.\<close>

definition try_vote :: "response \<Rightarrow> py_error + (pystr \<times> json)" where
  "try_vote out =
     and_then (json_loads out) (\<lambda>vote_data.
     and_then (getitem vote_data (ascii ''vote'')) (\<lambda>raw_vote.
     and_then (py_strip raw_vote) (\<lambda>vote.
     and_then (getitem vote_data (ascii ''reason'')) (\<lambda>raw_reason.
       Inr (vote, raw_reason)))))"

definition fallback_vote_reason :: "int \<Rightarrow> pystr" where
  "fallback_vote_reason current_round =
     shorten ([0x7B2C] @ str_int current_round @
              [0x8F6E, 0x65E0, 0x6709, 0x6548, 0x5206, 0x6790, 0xFF0C, 0x57FA, 0x4E8E, 0x968F,
               0x673A, 0x7B56, 0x7565, 0x6295, 0x7968]) 50"

text \<open>
  One voter: the \<open>try\<close> with its \<open>except\<close> (a random other agent and the fallback
  reason), then the validity check, which draws again for a self-vote or a vote outside
  the current agents.
\<close>

definition cast_vote ::
  "int \<Rightarrow> pystr list \<Rightarrow> pystr \<Rightarrow> response \<Rightarrow> world \<Rightarrow> py_error + ((pystr \<times> json) \<times> world)" where
  "cast_vote current_round cur agent out w =
     (case (case try_vote out of
              Inr vr \<Rightarrow> Inr (vr, w)
            | Inl e \<Rightarrow>
                if caught e then
                  (case random_choice (filter (\<lambda>a. a \<noteq> agent) cur) w of
                     Inl e' \<Rightarrow> Inl e'
                   | Inr (v, w1) \<Rightarrow> Inr ((v, JStr (fallback_vote_reason current_round)), w1))
                else Inl e) of
        Inl e \<Rightarrow> Inl e
      | Inr ((vote, reason), w1) \<Rightarrow>
          if vote = agent \<or> vote \<notin> set cur then
            (case random_choice (filter (\<lambda>a. a \<noteq> agent) cur) w1 of
               Inl e \<Rightarrow> Inl e
             | Inr (v, w2) \<Rightarrow> Inr ((v, reason), w2))
          else Inr ((vote, reason), w1))"

fun votes_loop ::
  "int \<Rightarrow> pystr \<Rightarrow> pystr list \<Rightarrow> pystr list \<Rightarrow> (pystr \<times> (pystr \<times> json)) list
     \<Rightarrow> (pystr \<times> pystr) list \<Rightarrow> (pystr \<times> json) list \<Rightarrow> world
     \<Rightarrow> py_error + ((pystr \<times> pystr) list \<times> (pystr \<times> json) list \<times> world)" where
  "votes_loop current_round ctx cur elim [] votes' reasons w = Inr (votes', reasons, w)"
| "votes_loop current_round ctx cur elim ((agent, (role, word)) # rest) votes' reasons w =
     (if agent \<in> set elim
      then votes_loop current_round ctx cur elim rest votes' reasons w
      else
        (case chain_invoke (VoteRequest ctx role word) w of
           Inl e \<Rightarrow> Inl e
         | Inr (out, w1) \<Rightarrow>
             (case cast_vote current_round cur agent out w1 of
                Inl e \<Rightarrow> Inl e
              | Inr ((vote, reason), w2) \<Rightarrow>
                  votes_loop current_round ctx cur elim rest
                    (dict_set votes' agent vote) (dict_set reasons agent reason) w2)))"

definition vote_undercover ::
  "(json \<Rightarrow> pystr) \<Rightarrow> GameState \<Rightarrow> world \<Rightarrow> py_error + (GameState \<times> world)" where
  "vote_undercover to_str state w =
     (case votes_loop (round_no state) (speech_context to_str state) (current_agents state)
             (eliminated state) (role_assignment state) [] [] w of
        Inl e \<Rightarrow> Inl e
      | Inr (votes', reasons, w1) \<Rightarrow>
          Inr (state\<lparr>votes := votes', vote_reasoning := reasons\<rparr>, w1))"

section \<open>Node 5: judge\_result\<close>

text \<open>The tally: \<open>vote_count[v] = vote_count.get(v, 0) + 1\<close> for each vote in turn.\<close>

definition tally_step :: "pystr \<Rightarrow> (pystr \<times> nat) list \<Rightarrow> (pystr \<times> nat) list" where
  "tally_step v vote_count =
     dict_set vote_count v ((case map_of vote_count v of None \<Rightarrow> 0 | Some c \<Rightarrow> c) + 1)"

definition count_votes :: "pystr list \<Rightarrow> (pystr \<times> nat) list" where
  "count_votes vs = fold tally_step vs []"

text \<open>\<open>max(values)\<close>: ValueError on an empty sequence.\<close>

definition py_max :: "nat list \<Rightarrow> py_error + nat" where
  "py_max xs = (case xs of [] \<Rightarrow> Inl ValueError | x # rest \<Rightarrow> Inr (fold max rest x))"

text \<open>\<open>state["role_assignment"][a][0]\<close>, when \<open>a\<close> is a key.\<close>

definition role_of :: "GameState \<Rightarrow> pystr \<Rightarrow> pystr option" where
  "role_of state a = map_option fst (map_of (role_assignment state) a)"

text \<open>The players tied at the maximum, in the order of the tally.\<close>

definition tied :: "(pystr \<times> nat) list \<Rightarrow> nat \<Rightarrow> pystr list" where
  "tied vote_count max_vote = map fst (filter (\<lambda>(a, c). c = max_vote) vote_count)"

definition judge_result :: "GameState \<Rightarrow> world \<Rightarrow> py_error + (GameState \<times> world)" where
  "judge_result state w =
     (let vote_count = count_votes (map snd (votes state)) in
      case py_max (map snd vote_count) of
        Inl e \<Rightarrow> Inl e
      | Inr max_vote \<Rightarrow>
          (case random_choice (tied vote_count max_vote) w of
             Inl e \<Rightarrow> Inl e
           | Inr (out, w1) \<Rightarrow>
               (let state1 = state\<lparr>eliminated := eliminated state @ [out]\<rparr> in
                case map_of (role_assignment state1) out of
                  None \<Rightarrow> Inl KeyError
                | Some (role, word) \<Rightarrow>
                    (let remaining = filter (\<lambda>a. a \<notin> set (eliminated state1))
                                       (map fst (role_assignment state1));
                         civ = length (filter (\<lambda>a. role_of state1 a = Some civilian_tag) remaining);
                         uc = length (filter (\<lambda>a. role_of state1 a = Some undercover_tag) remaining)
                     in
                       if role = undercover_tag then
                         Inr (state1\<lparr>game_status := ascii ''end'',
                                      winner := ascii ''civilian''\<rparr>, w1)
                       else if civ = 1 \<and> uc = 1 then
                         Inr (state1\<lparr>game_status := ascii ''end'',
                                      winner := ascii ''undercover''\<rparr>, w1)
                       else
                         Inr (state1\<lparr>game_status := ascii ''running'',
                                      round_no := round_no state1 + 1\<rparr>, w1)))))"

section \<open>Node 6 and the graph\<close>

text \<open>\<open>show_final_result\<close> only prints.\<close>

definition show_final_result :: "GameState \<Rightarrow> GameState" where
  "show_final_result state = state"

definition route :: "GameState \<Rightarrow> string" where
  "route state =
     (if game_status state = ascii ''running'' then ''generate_speeches''
      else ''show_final_result'')"

text \<open>
  The cycle of the graph: speeches, votes, judgment, then \<open>route\<close>. The first argument
  bounds the number of rounds; \<open>None\<close> says that the cycle has not come to its end
  within that many rounds. An exception ends the run with \<open>Some (Inl e)\<close>.
\<close>

fun game_loop ::
  "nat \<Rightarrow> (json \<Rightarrow> pystr) \<Rightarrow> GameState \<Rightarrow> world \<Rightarrow> (py_error + (GameState \<times> world)) option" where
  "game_loop 0 to_str state w = None"
| "game_loop (Suc n) to_str state w =
     (case generate_speeches to_str state w of
        Inl e \<Rightarrow> Some (Inl e)
      | Inr (s1, w1) \<Rightarrow>
          (case vote_undercover to_str s1 w1 of
             Inl e \<Rightarrow> Some (Inl e)
           | Inr (s2, w2) \<Rightarrow>
               (case judge_result s2 w2 of
                  Inl e \<Rightarrow> Some (Inl e)
                | Inr (s3, w3) \<Rightarrow>
                    if route s3 = ''generate_speeches'' then game_loop n to_str s3 w3
                    else Some (Inr (show_final_result s3, w3)))))"

text \<open>The whole graph from the entry point, on the initial state.\<close>

definition run_game ::
  "nat \<Rightarrow> (json \<Rightarrow> pystr) \<Rightarrow> world \<Rightarrow> (py_error + (GameState \<times> world)) option" where
  "run_game n to_str w =
     (case generate_words init_game_state w of
        Inl e \<Rightarrow> Some (Inl e)
      | Inr (s1, w1) \<Rightarrow>
          (case assign_roles s1 w1 of
             Inl e \<Rightarrow> Some (Inl e)
           | Inr (s2, w2) \<Rightarrow> game_loop n to_str s2 w2))"

section \<open>Notions used to state the properties\<close>

text \<open>
  A player is most voted when it is the target of a vote and no target has more votes,
  the votes being counted in the list of targets itself.
\<close>

definition is_most_voted :: "GameState \<Rightarrow> pystr \<Rightarrow> bool" where
  "is_most_voted s a \<longleftrightarrow>
     (let targets = map snd (votes s)
      in a \<in> set targets \<and> (\<forall>b \<in> set targets. count_list targets b \<le> count_list targets a))"

text \<open>The active players who hold a given role.\<close>

definition holders :: "GameState \<Rightarrow> pystr \<Rightarrow> pystr set" where
  "holders s tag = {a \<in> set (current_agents s). role_of s a = Some tag}"

text \<open>
  The two halves of \<open>judge_result\<close>: the list handed to \<open>random.choice\<close>, and the
  state after the player \<open>e\<close> has been drawn from it.
\<close>

definition candidates :: "GameState \<Rightarrow> pystr list" where
  "candidates s = (let vc = count_votes (map snd (votes s)) in tied vc (Max (set (map snd vc))))"

definition verdict :: "GameState \<Rightarrow> pystr \<Rightarrow> GameState" where
  "verdict s e =
     (let s1 = s\<lparr>eliminated := eliminated s @ [e]\<rparr> in
      if role_of s e = Some undercover_tag then s1\<lparr>game_status := ascii ''end'', winner := ascii ''civilian''\<rparr>
      else if length (filter (\<lambda>a. role_of s a = Some civilian_tag) (current_agents s1)) = 1 \<and>
              length (filter (\<lambda>a. role_of s a = Some undercover_tag) (current_agents s1)) = 1
      then s1\<lparr>game_status := ascii ''end'', winner := ascii ''undercover''\<rparr>
      else s1\<lparr>game_status := ascii ''running'', round_no := round_no s + 1\<rparr>)"

text \<open>One node of the graph runs from \<open>(s, w)\<close> to \<open>(s', w')\<close>.\<close>

definition node_step :: "(json \<Rightarrow> pystr) \<Rightarrow> GameState \<Rightarrow> world \<Rightarrow> GameState \<Rightarrow> world \<Rightarrow> bool" where
  "node_step to_str s w s' w' \<longleftrightarrow>
     generate_words s w = Inr (s', w') \<or> assign_roles s w = Inr (s', w') \<or>
     generate_speeches to_str s w = Inr (s', w') \<or> vote_undercover to_str s w = Inr (s', w') \<or>
     judge_result s w = Inr (s', w')"

text \<open>The entry that \<open>assign_roles\<close> writes for an agent when \<open>u\<close> is the undercover player.\<close>

definition role_entry :: "GameState \<Rightarrow> pystr \<Rightarrow> pystr \<Rightarrow> pystr \<times> (pystr \<times> json)" where
  "role_entry s u a =
     (a, if a = u then (undercover_tag, undercover_word s) else (civilian_tag, civilian_word s))"






text \<open>The fallback speech of a role, and the padding of a role.\<close>

definition fallback_speech :: "int \<Rightarrow> pystr \<Rightarrow> pystr" where
  "fallback_speech r role =
     (if role = civilian_tag then fallback_speech_civilian r else fallback_speech_undercover r)"


text \<open>The history without the statements of the players in \<open>elim\<close>.\<close>

definition without :: "pystr list \<Rightarrow> (pystr \<times> json) list list \<Rightarrow> (pystr \<times> json) list list" where
  "without elim history = map (filter (\<lambda>(agent, speech). agent \<notin> set elim)) history"

text \<open>The fallback reason of a role.\<close>

definition fallback_reason :: "int \<Rightarrow> pystr \<Rightarrow> pystr" where
  "fallback_reason r role =
     (if role = civilian_tag then fallback_reason_civilian r else fallback_reason_undercover r)"

text \<open>
  The roles of a game: the keys are pairwise different and every role is one of the
  two tags.
\<close>

definition roles_ok :: "GameState \<Rightarrow> bool" where
  "roles_ok s \<longleftrightarrow>
     distinct (map fst (role_assignment s)) \<and>
     (\<forall>(a, (role, word)) \<in> set (role_assignment s). role = undercover_tag \<or> role = civilian_tag)"

section \<open>Example states and worlds\<close>

text \<open>
  A game after role assignment in which agent2 is the undercover player, and a world
  whose service never returns JSON and whose random numbers are all zero.
\<close>

definition example_roles :: "(pystr \<times> (pystr \<times> json)) list" where
  "example_roles =
     [(ascii ''agent1'', (civilian_tag, JStr [0x5976, 0x8336])),
      (ascii ''agent2'', (undercover_tag, JStr [0x679C, 0x6C41])),
      (ascii ''agent3'', (civilian_tag, JStr [0x5976, 0x8336])),
      (ascii ''agent4'', (civilian_tag, JStr [0x5976, 0x8336]))]"

definition example_state :: GameState where
  "example_state =
     init_game_state\<lparr>civilian_word := JStr [0x5976, 0x8336],
                      undercover_word := JStr [0x679C, 0x6C41],
                      role_assignment := example_roles\<rparr>"

definition quiet_world :: world where
  "quiet_world = \<lparr>llm = sconst (\<lambda>req. Returns NotJson), rng = sconst 0\<rparr>"

text \<open>Three of the four players vote for agent2.\<close>

definition voted_out_state :: GameState where
  "voted_out_state =
     example_state\<lparr>votes := [(ascii ''agent1'', ascii ''agent2''), (ascii ''agent2'', ascii ''agent1''),
                              (ascii ''agent3'', ascii ''agent2''), (ascii ''agent4'', ascii ''agent2'')]\<rparr>"

text \<open>A two-two split of the votes between agent3 and agent1.\<close>

definition tie_state :: GameState where
  "tie_state =
     example_state\<lparr>votes := [(ascii ''agent1'', ascii ''agent3''), (ascii ''agent2'', ascii ''agent3''),
                              (ascii ''agent3'', ascii ''agent1''), (ascii ''agent4'', ascii ''agent1'')]\<rparr>"

text \<open>Three of the four players vote for agent3, a civilian.\<close>

definition continue_state :: GameState where
  "continue_state =
     example_state\<lparr>votes := [(ascii ''agent1'', ascii ''agent3''), (ascii ''agent2'', ascii ''agent3''),
                              (ascii ''agent3'', ascii ''agent1''), (ascii ''agent4'', ascii ''agent3'')]\<rparr>"



text \<open>The state after the first voting phase of the example game in the quiet world.\<close>

definition quiet_votes_state :: GameState where
  "quiet_votes_state =
     example_state\<lparr>votes := [(ascii ''agent1'', ascii ''agent2''), (ascii ''agent2'', ascii ''agent1''),
                              (ascii ''agent3'', ascii ''agent1''), (ascii ''agent4'', ascii ''agent1'')],
                    vote_reasoning := [(ascii ''agent1'', JStr (fallback_vote_reason 1)),
                                       (ascii ''agent2'', JStr (fallback_vote_reason 1)),
                                       (ascii ''agent3'', JStr (fallback_vote_reason 1)),
                                       (ascii ''agent4'', JStr (fallback_vote_reason 1))]\<rparr>"


text \<open>
  A whole game in a world whose service never returns JSON: the first draw selects the
  first curated pair, the second makes agent2 the undercover player, all later draws are
  zero. The states after each node of the first round follow.
\<close>

definition example_world :: world where
  "example_world = \<lparr>llm = sconst (\<lambda>req. Returns NotJson), rng = 0 ## 1 ## sconst 0\<rparr>"

definition quiet_speeches :: "int \<Rightarrow> (pystr \<times> (pystr \<times> json)) list \<Rightarrow> (pystr \<times> json) list" where
  "quiet_speeches r items = map (\<lambda>(agent, (role, word)). (agent, JStr (fallback_speech r role))) items"

definition quiet_reasons :: "int \<Rightarrow> (pystr \<times> (pystr \<times> json)) list \<Rightarrow> (pystr \<times> json) list" where
  "quiet_reasons r items = map (\<lambda>(agent, (role, word)). (agent, JStr (fallback_reason r role))) items"

definition round1_spoken :: GameState where
  "round1_spoken =
     example_state\<lparr>history_speeches := [quiet_speeches 1 example_roles],
                    speeches := quiet_speeches 1 example_roles,
                    speech_reasoning := quiet_reasons 1 example_roles\<rparr>"

definition round1_voted :: GameState where
  "round1_voted =
     round1_spoken\<lparr>votes := votes quiet_votes_state,
                    vote_reasoning := vote_reasoning quiet_votes_state\<rparr>"

definition round1_judged :: GameState where
  "round1_judged =
     round1_voted\<lparr>eliminated := [ascii ''agent1''], game_status := ascii ''running'', round_no := 2\<rparr>"

text \<open>The states after each node of the second round, in which agent2 is voted out.\<close>

definition round2_spoken :: GameState where
  "round2_spoken =
     round1_judged\<lparr>history_speeches := [quiet_speeches 1 example_roles,
                                            quiet_speeches 2 (tl example_roles)],
                    speeches := quiet_speeches 2 (tl example_roles),
                    speech_reasoning := quiet_reasons 2 (tl example_roles)\<rparr>"

definition round2_voted :: GameState where
  "round2_voted =
     round2_spoken\<lparr>votes := [(ascii ''agent2'', ascii ''agent3''), (ascii ''agent3'', ascii ''agent2''),
                              (ascii ''agent4'', ascii ''agent2'')],
                    vote_reasoning := [(ascii ''agent2'', JStr (fallback_vote_reason 2)),
                                       (ascii ''agent3'', JStr (fallback_vote_reason 2)),
                                       (ascii ''agent4'', JStr (fallback_vote_reason 2))]\<rparr>"

definition final_state :: GameState where
  "final_state =
     round2_voted\<lparr>eliminated := [ascii ''agent1'', ascii ''agent2''],
                   game_status := ascii ''end'', winner := ascii ''civilian''\<rparr>"

section \<open>Properties\<close>

subsection \<open>Dicts\<close>

lemma map_of_dict_set: "map_of (dict_set d k v) = (map_of d)(k \<mapsto> v)"
  by (induction d k v rule: dict_set.induct) auto

lemma keys_dict_set: "fst ` set (dict_set d k v) = insert k (fst ` set d)"
  by (induction d k v rule: dict_set.induct) auto

lemma distinct_dict_set: "distinct (map fst d) \<Longrightarrow> distinct (map fst (dict_set d k v))"
  by (induction d k v rule: dict_set.induct) (auto simp: keys_dict_set)

subsection \<open>The tally and the tied candidates\<close>

lemma fold_tally_map_of:
  "map_of (fold tally_step vs acc) a =
     (case map_of acc a of
        None \<Rightarrow> if a \<in> set vs then Some (count_list vs a) else None
      | Some c \<Rightarrow> Some (c + count_list vs a))"
  by (induction vs arbitrary: acc) (auto simp: tally_step_def map_of_dict_set split: option.splits)

lemma fold_tally_distinct:
  "distinct (map fst acc) \<Longrightarrow> distinct (map fst (fold tally_step vs acc))"
  by (induction vs arbitrary: acc) (auto simp: tally_step_def distinct_dict_set)

lemma fold_tally_keys:
  "fst ` set (fold tally_step vs acc) = fst ` set acc \<union> set vs"
  by (induction vs arbitrary: acc) (auto simp: tally_step_def keys_dict_set)

lemma count_votes_fold: "count_votes vs = fold tally_step vs []"
  by (simp add: count_votes_def)

lemma map_of_count_votes:
  "map_of (count_votes vs) a = (if a \<in> set vs then Some (count_list vs a) else None)"
  by (simp add: count_votes_fold fold_tally_map_of)

lemma distinct_count_votes: "distinct (map fst (count_votes vs))"
  by (simp add: count_votes_fold fold_tally_distinct)

lemma keys_count_votes: "fst ` set (count_votes vs) = set vs"
  by (simp add: count_votes_fold fold_tally_keys)

lemma count_votes_entry:
  "(a, c) \<in> set (count_votes vs) \<longleftrightarrow> a \<in> set vs \<and> c = count_list vs a"
proof -
  have "(a, c) \<in> set (count_votes vs) \<longleftrightarrow> map_of (count_votes vs) a = Some c"
    using distinct_count_votes[of vs] by simp
  then show ?thesis by (auto simp: map_of_count_votes)
qed

lemma fold_max_Max: "fold max rest x = Max (set (x # rest))"
  by (simp only: Max.set_eq_fold)

lemma py_max_Inr: "py_max xs = Inr m \<longleftrightarrow> xs \<noteq> [] \<and> m = Max (set xs)"
  by (cases xs) (auto simp: py_max_def fold_max_Max simp del: set_simps)

lemma py_max_Inl: "py_max xs = Inl e \<longleftrightarrow> xs = [] \<and> e = ValueError"
  by (cases xs) (auto simp: py_max_def)

lemma values_count_votes: "snd ` set (count_votes vs) = count_list vs ` set vs"
proof (intro set_eqI iffI)
  fix c assume "c \<in> snd ` set (count_votes vs)"
  then obtain a where "(a, c) \<in> set (count_votes vs)" by auto
  then show "c \<in> count_list vs ` set vs" by (simp add: count_votes_entry)
next
  fix c assume "c \<in> count_list vs ` set vs"
  then obtain a where "a \<in> set vs" "c = count_list vs a" by auto
  then have "(a, c) \<in> set (count_votes vs)" by (simp add: count_votes_entry)
  then show "c \<in> snd ` set (count_votes vs)" by force
qed

lemma set_tied_count_votes:
  assumes "vs \<noteq> []"
  shows "set (tied (count_votes vs) (Max (set (map snd (count_votes vs))))) =
         {a \<in> set vs. \<forall>b \<in> set vs. count_list vs b \<le> count_list vs a}"
proof -
  let ?C = "count_list vs ` set vs"
  have fin: "finite ?C" and ne: "?C \<noteq> {}" using assms by auto
  have M: "set (map snd (count_votes vs)) = ?C" by (simp add: values_count_votes)
  have "set (tied (count_votes vs) (Max ?C)) = {a \<in> set vs. count_list vs a = Max ?C}"
    by (auto simp: tied_def count_votes_entry image_iff)
  moreover have "count_list vs a = Max ?C \<longleftrightarrow> (\<forall>b \<in> set vs. count_list vs b \<le> count_list vs a)"
    if "a \<in> set vs" for a
  proof -
    have "Max ?C = count_list vs a \<longleftrightarrow> (\<forall>b \<in> set vs. count_list vs b \<le> count_list vs a)"
      using Max_eq_iff[OF fin ne, of "count_list vs a"] that by auto
    then show ?thesis by auto
  qed
  ultimately show ?thesis unfolding M by auto
qed

lemma distinct_tied: "distinct (map fst vc) \<Longrightarrow> distinct (tied vc m)"
  by (simp add: tied_def distinct_map_filter)

lemma random_choice_Inr:
  "random_choice xs w = Inr (x, w') \<longleftrightarrow>
     xs \<noteq> [] \<and> x = xs ! (shd (rng w) mod length xs) \<and> w' = w\<lparr>rng := stl (rng w)\<rparr>"
  by (auto simp: random_choice_def)

lemma random_choice_mem: "random_choice xs w = Inr (x, w') \<Longrightarrow> x \<in> set xs"
  by (auto simp: random_choice_def split: if_splits)

lemma random_choice_reach:
  assumes "x \<in> set xs"
  shows "\<exists>n. random_choice xs (w\<lparr>rng := n ## r\<rparr>) = Inr (x, w\<lparr>rng := r\<rparr>)"
proof -
  from assms obtain i where "i < length xs" "xs ! i = x" by (auto simp: in_set_conv_nth)
  then have "random_choice xs (w\<lparr>rng := i ## r\<rparr>) = Inr (x, w\<lparr>rng := r\<rparr>)"
    using assms by (auto simp: random_choice_def)
  then show ?thesis ..
qed

lemma tied_nonempty:
  assumes "vc \<noteq> []"
  shows "tied vc (Max (set (map snd vc))) \<noteq> []"
proof -
  have "Max (set (map snd vc)) \<in> set (map snd vc)"
    using assms by (intro Max_in) auto
  then obtain a where "(a, Max (set (map snd vc))) \<in> set vc" by auto
  then have "a \<in> set (tied vc (Max (set (map snd vc))))"
    by (force simp: tied_def)
  then show ?thesis by auto
qed

subsection \<open>The judgment\<close>

lemma judge_result_eq:
  "judge_result s w =
     (if votes s = [] then Inl ValueError
      else let e = candidates s ! (shd (rng w) mod length (candidates s)) in
        case map_of (role_assignment s) e of None \<Rightarrow> Inl KeyError
        | Some rw \<Rightarrow> Inr (verdict s e, w\<lparr>rng := stl (rng w)\<rparr>))"
proof (cases "votes s = []")
  case True
  then show ?thesis by (simp add: judge_result_def count_votes_def py_max_def)
next
  case False
  let ?vs = "map snd (votes s)"
  let ?vc = "count_votes ?vs"
  let ?m = "Max (set (map snd ?vc))"
  from False have ne: "?vs \<noteq> []" by simp
  then have vc_ne: "map snd ?vc \<noteq> []"
    using keys_count_votes[of ?vs] by auto
  have pm: "py_max (map snd ?vc) = Inr ?m" using vc_ne by (simp add: py_max_Inr)
  have tn: "tied ?vc ?m \<noteq> []"
    using vc_ne by (intro tied_nonempty) auto
  define e where "e = candidates s ! (shd (rng w) mod length (candidates s))"
  have rc: "random_choice (tied ?vc ?m) w = Inr (e, w\<lparr>rng := stl (rng w)\<rparr>)"
    using tn by (simp add: random_choice_def candidates_def e_def Let_def)
  have "judge_result s w =
          (case map_of (role_assignment s) e of None \<Rightarrow> Inl KeyError
           | Some rw \<Rightarrow> Inr (verdict s e, w\<lparr>rng := stl (rng w)\<rparr>))"
    unfolding judge_result_def Let_def pm sum.case rc prod.case
    by (auto simp: verdict_def role_of_def current_agents_def Let_def split: option.splits)
  then show ?thesis using False unfolding e_def Let_def by simp
qed

lemma candidates_set:
  "votes s \<noteq> [] \<Longrightarrow> set (candidates s) = {a. is_most_voted s a}"
  using set_tied_count_votes[of "map snd (votes s)"]
  by (auto simp: candidates_def is_most_voted_def Let_def)

lemma candidates_distinct: "distinct (candidates s)"
  by (simp add: candidates_def Let_def distinct_tied distinct_count_votes)

lemma count_votes_nonempty: "vs \<noteq> [] \<Longrightarrow> count_votes vs \<noteq> []"
proof
  assume "vs \<noteq> []" and "count_votes vs = []"
  then have "set vs = {}" using keys_count_votes[of vs] by simp
  with \<open>vs \<noteq> []\<close> show False by simp
qed

lemma candidates_nonempty: "votes s \<noteq> [] \<Longrightarrow> candidates s \<noteq> []"
  using tied_nonempty[of "count_votes (map snd (votes s))"] count_votes_nonempty[of "map snd (votes s)"]
  by (simp add: candidates_def Let_def)

lemma candidates_targets: "votes s \<noteq> [] \<Longrightarrow> set (candidates s) \<subseteq> snd ` set (votes s)"
  by (auto simp: candidates_set is_most_voted_def Let_def)

lemma verdict_eliminated: "eliminated (verdict s e) = eliminated s @ [e]"
  by (simp add: verdict_def Let_def)

lemma verdict_role_assignment: "role_assignment (verdict s e) = role_assignment s"
  by (simp add: verdict_def Let_def)

lemma length_filter_card:
  "distinct xs \<Longrightarrow> length (filter P xs) = card {a \<in> set xs. P a}"
  by (metis distinct_filter distinct_card set_filter)

lemma role_of_verdict: "role_of (verdict s e) = role_of s"
  by (simp add: role_of_def verdict_role_assignment fun_eq_iff)

lemma current_agents_verdict:
  "current_agents (verdict s e) = filter (\<lambda>a. a \<noteq> e) (current_agents s)"
  by (auto simp: current_agents_def verdict_eliminated verdict_role_assignment intro: filter_cong)

text \<open>
  Claim C1. A judgment on a state with votes (whose targets are players) returns; it
  appends one player to \<open>eliminated\<close>; if that player holds the undercover role the game
  ends and the civilians win; otherwise, if exactly one civilian and one undercover
  player remain active, the game ends and the undercover side wins; otherwise the game
  stays running. The conditions are tested in this order.
\<close>

theorem judge_result_verdict:
  assumes wf: "distinct (map fst (role_assignment s))"
    and nv: "votes s \<noteq> []"
    and tg: "snd ` set (votes s) \<subseteq> fst ` set (role_assignment s)"
  shows "\<exists>s' w' e. judge_result s w = Inr (s', w') \<and> eliminated s' = eliminated s @ [e] \<and>
           (if role_of s e = Some undercover_tag
            then game_status s' = ascii ''end'' \<and> winner s' = ascii ''civilian''
            else if card (holders s' civilian_tag) = 1 \<and> card (holders s' undercover_tag) = 1
            then game_status s' = ascii ''end'' \<and> winner s' = ascii ''undercover''
            else game_status s' = ascii ''running'' \<and> winner s' = winner s)"
proof -
  define e where "e = candidates s ! (shd (rng w) mod length (candidates s))"
  have "e \<in> set (candidates s)"
    using candidates_nonempty[OF nv] by (simp add: e_def)
  then have "e \<in> fst ` set (role_assignment s)"
    using candidates_targets[OF nv] tg by auto
  then obtain rw where rw: "map_of (role_assignment s) e = Some rw"
    by (metis domD dom_map_of_conv_image_fst)
  have jr: "judge_result s w = Inr (verdict s e, w\<lparr>rng := stl (rng w)\<rparr>)"
    using nv rw by (simp add: judge_result_eq Let_def e_def[symmetric])
  have dc: "distinct (current_agents (verdict s e))"
    using wf by (simp add: current_agents_def verdict_role_assignment)
  have cnt: "length (filter (\<lambda>a. role_of s a = Some tag) (current_agents (s\<lparr>eliminated := eliminated s @ [e]\<rparr>)))
             = card (holders (verdict s e) tag)" for tag
  proof -
    have "current_agents (s\<lparr>eliminated := eliminated s @ [e]\<rparr>) = current_agents (verdict s e)"
      by (simp add: current_agents_def verdict_eliminated verdict_role_assignment)
    then show ?thesis
      using dc by (simp add: holders_def role_of_verdict length_filter_card)
  qed
  have "if role_of s e = Some undercover_tag
        then game_status (verdict s e) = ascii ''end'' \<and> winner (verdict s e) = ascii ''civilian''
        else if card (holders (verdict s e) civilian_tag) = 1 \<and> card (holders (verdict s e) undercover_tag) = 1
        then game_status (verdict s e) = ascii ''end'' \<and> winner (verdict s e) = ascii ''undercover''
        else game_status (verdict s e) = ascii ''running'' \<and> winner (verdict s e) = winner s"
    unfolding cnt[symmetric] by (simp add: verdict_def Let_def)
  with jr verdict_eliminated show ?thesis by blast
qed

theorem judge_result_verdict_witness:
  "distinct (map fst (role_assignment voted_out_state)) \<and> votes voted_out_state \<noteq> [] \<and>
   snd ` set (votes voted_out_state) \<subseteq> fst ` set (role_assignment voted_out_state) \<and>
   (\<exists>s' w' e. judge_result voted_out_state quiet_world = Inr (s', w') \<and>
      eliminated s' = eliminated voted_out_state @ [e] \<and>
      (if role_of voted_out_state e = Some undercover_tag
       then game_status s' = ascii ''end'' \<and> winner s' = ascii ''civilian''
       else if card (holders s' civilian_tag) = 1 \<and> card (holders s' undercover_tag) = 1
       then game_status s' = ascii ''end'' \<and> winner s' = ascii ''undercover''
       else game_status s' = ascii ''running'' \<and> winner s' = winner voted_out_state))"
proof -
  have h1: "distinct (map fst (role_assignment voted_out_state))"
    by (simp add: voted_out_state_def example_state_def example_roles_def ascii_def)
  have h2: "votes voted_out_state \<noteq> []"
    by (simp add: voted_out_state_def)
  have h3: "snd ` set (votes voted_out_state) \<subseteq> fst ` set (role_assignment voted_out_state)"
    by (simp add: voted_out_state_def example_state_def example_roles_def ascii_def)
  from judge_result_verdict[OF h1 h2 h3, of quiet_world] h1 h2 h3 show ?thesis by blast
qed

lemma judge_result_Inr:
  assumes "judge_result s w = Inr (s', w')"
  shows "votes s \<noteq> [] \<and> s' = verdict s (candidates s ! (shd (rng w) mod length (candidates s))) \<and>
         w' = w\<lparr>rng := stl (rng w)\<rparr>"
  using assms by (auto simp: judge_result_eq Let_def split: if_splits option.splits)

lemma judge_result_returns:
  assumes nv: "votes s \<noteq> []" and tg: "snd ` set (votes s) \<subseteq> fst ` set (role_assignment s)"
  shows "judge_result s w =
           Inr (verdict s (candidates s ! (shd (rng w) mod length (candidates s))), w\<lparr>rng := stl (rng w)\<rparr>)"
proof -
  define e where "e = candidates s ! (shd (rng w) mod length (candidates s))"
  have "e \<in> set (candidates s)"
    using candidates_nonempty[OF nv] by (simp add: e_def)
  then have "e \<in> fst ` set (role_assignment s)"
    using candidates_targets[OF nv] tg by auto
  then obtain rw where rw: "map_of (role_assignment s) e = Some rw"
    by (metis domD dom_map_of_conv_image_fst)
  show ?thesis
    using nv rw by (simp add: judge_result_eq Let_def e_def[symmetric])
qed

lemma verdict_round:
  "(game_status (verdict s e) = ascii ''running'' \<and> round_no (verdict s e) = round_no s + 1) \<or>
   (game_status (verdict s e) = ascii ''end'' \<and> round_no (verdict s e) = round_no s)"
  by (simp add: verdict_def Let_def)

lemma verdict_round_mono: "round_no s \<le> round_no (verdict s e)"
  by (simp add: verdict_def Let_def)

lemma generate_words_round: "generate_words s w = Inr (s', w') \<Longrightarrow> round_no s' = round_no s"
  by (auto simp: generate_words_def split: sum.splits prod.splits if_splits)

lemma assign_roles_round: "assign_roles s w = Inr (s', w') \<Longrightarrow> round_no s' = round_no s"
  by (auto simp: assign_roles_def split: sum.splits prod.splits)

lemma generate_speeches_round: "generate_speeches to_str s w = Inr (s', w') \<Longrightarrow> round_no s' = round_no s"
  by (auto simp: generate_speeches_def split: sum.splits prod.splits)

lemma vote_undercover_round: "vote_undercover to_str s w = Inr (s', w') \<Longrightarrow> round_no s' = round_no s"
  by (auto simp: vote_undercover_def split: sum.splits prod.splits)

text \<open>
  Claim C4. No node of the graph decreases the round counter; a judgment that returns
  either leaves the game running and has increased the counter by exactly 1, or has
  ended the game and left the counter unchanged.
\<close>

theorem round_counter_steps:
  assumes "node_step to_str s w s' w'"
  shows "round_no s \<le> round_no s' \<and>
         (judge_result s w = Inr (s', w') \<longrightarrow>
            (game_status s' = ascii ''running'' \<and> round_no s' = round_no s + 1) \<or>
            (game_status s' = ascii ''end'' \<and> round_no s' = round_no s))"
proof -
  have j: "(game_status s' = ascii ''running'' \<and> round_no s' = round_no s + 1) \<or>
           (game_status s' = ascii ''end'' \<and> round_no s' = round_no s)"
    if "judge_result s w = Inr (s', w')"
    using judge_result_Inr[OF that] verdict_round by simp
  have "round_no s \<le> round_no s'"
    using assms j generate_words_round assign_roles_round generate_speeches_round vote_undercover_round
    unfolding node_step_def by fastforce
  with j show ?thesis by blast
qed

text \<open>Hence the counter at the end of the cycle is at least the counter at its start.\<close>

lemma game_loop_round:
  "game_loop n to_str s w = Some (Inr (s', w')) \<Longrightarrow> round_no s \<le> round_no s'"
proof (induction n arbitrary: s w)
  case 0
  then show ?case by simp
next
  case (Suc n)
  from Suc.prems obtain s1 w1 s2 w2 s3 w3 where
    a: "generate_speeches to_str s w = Inr (s1, w1)" and
    b: "vote_undercover to_str s1 w1 = Inr (s2, w2)" and
    c: "judge_result s2 w2 = Inr (s3, w3)" and
    d: "(if route s3 = ''generate_speeches'' then game_loop n to_str s3 w3
         else Some (Inr (show_final_result s3, w3))) = Some (Inr (s', w'))"
    by (auto split: sum.splits prod.splits)
  have "round_no s \<le> round_no s3"
    using generate_speeches_round[OF a] vote_undercover_round[OF b] judge_result_Inr[OF c]
      verdict_round_mono[of s2 "candidates s2 ! (shd (rng w2) mod length (candidates s2))"]
    by simp
  moreover have "round_no s3 \<le> round_no s'"
    using d Suc.IH[of s3 w3] by (auto simp: show_final_result_def split: if_splits)
  ultimately show ?case by simp
qed

text \<open>
  Claim C5. In a judgment on a state with votes (whose targets are players), the list
  handed to \<open>random.choice\<close> is a duplicate-free enumeration of exactly the most voted
  players; the eliminated player is the entry of that list at the index drawn, so a
  uniform index gives a uniform choice among the tied players, and for every tied
  player there is a draw that eliminates that player.
\<close>

theorem tie_break_uniform:
  assumes nv: "votes s \<noteq> []" and tg: "snd ` set (votes s) \<subseteq> fst ` set (role_assignment s)"
  shows "\<exists>cands. cands \<noteq> [] \<and> distinct cands \<and> set cands = {a. is_most_voted s a} \<and>
           (\<forall>w. \<exists>s' w'. judge_result s w = Inr (s', w') \<and>
                   eliminated s' = eliminated s @ [cands ! (shd (rng w) mod length cands)]) \<and>
           (\<forall>a w. is_most_voted s a \<longrightarrow>
                   (\<exists>n s' w'. judge_result s (w\<lparr>rng := n ## rng w\<rparr>) = Inr (s', w') \<and>
                      eliminated s' = eliminated s @ [a]))"
proof (intro exI[of _ "candidates s"] conjI allI impI)
  show "candidates s \<noteq> []" by (rule candidates_nonempty[OF nv])
  show "distinct (candidates s)" by (rule candidates_distinct)
  show "set (candidates s) = {a. is_most_voted s a}" by (rule candidates_set[OF nv])
next
  fix w
  show "\<exists>s' w'. judge_result s w = Inr (s', w') \<and>
          eliminated s' = eliminated s @ [candidates s ! (shd (rng w) mod length (candidates s))]"
    using judge_result_returns[OF nv tg, of w] by (simp add: verdict_eliminated)
next
  fix a w assume "is_most_voted s a"
  then have "a \<in> set (candidates s)" by (simp add: candidates_set[OF nv])
  then obtain i where i: "i < length (candidates s)" "candidates s ! i = a"
    by (auto simp: in_set_conv_nth)
  have "judge_result s (w\<lparr>rng := i ## rng w\<rparr>) = Inr (verdict s a, w)"
    using judge_result_returns[OF nv tg, of "w\<lparr>rng := i ## rng w\<rparr>"] i by simp
  then show "\<exists>n s' w'. judge_result s (w\<lparr>rng := n ## rng w\<rparr>) = Inr (s', w') \<and>
               eliminated s' = eliminated s @ [a]"
    by (intro exI[of _ i] exI[of _ "verdict s a"] exI[of _ w]) (simp add: verdict_eliminated)
qed

lemma judge_continue_state:
  "judge_result continue_state quiet_world =
     Inr (continue_state\<lparr>eliminated := [ascii ''agent3''], game_status := ascii ''running'', round_no := 2\<rparr>,
          quiet_world)"
  by (simp add: judge_result_def continue_state_def example_state_def example_roles_def ascii_def
      count_votes_def tally_step_def py_max_def tied_def random_choice_def quiet_world_def
      init_game_state_def undercover_tag_def civilian_tag_def Let_def role_of_def)

theorem round_counter_steps_witness:
  "node_step (\<lambda>v. []) continue_state quiet_world
     (continue_state\<lparr>eliminated := [ascii ''agent3''], game_status := ascii ''running'', round_no := 2\<rparr>)
     quiet_world \<and>
   round_no continue_state = 1 \<and>
   round_no (continue_state\<lparr>eliminated := [ascii ''agent3''], game_status := ascii ''running'', round_no := 2\<rparr>)
     = round_no continue_state + 1"
proof -
  have n: "node_step (\<lambda>v. []) continue_state quiet_world
     (continue_state\<lparr>eliminated := [ascii ''agent3''], game_status := ascii ''running'', round_no := 2\<rparr>)
     quiet_world"
    by (simp add: node_step_def judge_continue_state)
  from round_counter_steps[OF n] n show ?thesis
    by (simp add: continue_state_def example_state_def init_game_state_def)
qed

theorem tie_break_uniform_witness:
  "votes tie_state \<noteq> [] \<and> snd ` set (votes tie_state) \<subseteq> fst ` set (role_assignment tie_state) \<and>
   is_most_voted tie_state (ascii ''agent1'') \<and> is_most_voted tie_state (ascii ''agent3'') \<and>
   (\<exists>n s' w'. judge_result tie_state (quiet_world\<lparr>rng := n ## rng quiet_world\<rparr>) = Inr (s', w') \<and>
      eliminated s' = eliminated tie_state @ [ascii ''agent1'']) \<and>
   (\<exists>n s' w'. judge_result tie_state (quiet_world\<lparr>rng := n ## rng quiet_world\<rparr>) = Inr (s', w') \<and>
      eliminated s' = eliminated tie_state @ [ascii ''agent3''])"
proof -
  have h1: "votes tie_state \<noteq> []" by (simp add: tie_state_def)
  have h2: "snd ` set (votes tie_state) \<subseteq> fst ` set (role_assignment tie_state)"
    by (simp add: tie_state_def example_state_def example_roles_def ascii_def)
  have m1: "is_most_voted tie_state (ascii ''agent1'')"
    by (simp add: is_most_voted_def tie_state_def ascii_def Let_def)
  have m3: "is_most_voted tie_state (ascii ''agent3'')"
    by (simp add: is_most_voted_def tie_state_def ascii_def Let_def)
  from tie_break_uniform[OF h1 h2] h1 h2 m1 m3 show ?thesis by blast
qed

subsection \<open>The service\<close>









subsection \<open>Word generation\<close>









subsection \<open>Role assignment\<close>

lemma dict_set_append: "k \<notin> fst ` set d \<Longrightarrow> dict_set d k v = d @ [(k, v)]"
  by (induction d k v rule: dict_set.induct) auto

lemma assign_loop_append:
  assumes "distinct as" and "set as \<inter> fst ` set ra = {}"
  shows "assign_loop u (civilian_word s) (undercover_word s) as ra = ra @ map (role_entry s u) as"
  using assms
proof (induction as arbitrary: ra)
  case Nil
  then show ?case by simp
next
  case (Cons a as)
  let ?ra = "ra @ [role_entry s u a]"
  have step: "(if a = u then dict_set ra a (undercover_tag, undercover_word s)
               else dict_set ra a (civilian_tag, civilian_word s)) = ?ra"
    using Cons.prems by (auto simp: dict_set_append role_entry_def)
  have "set as \<inter> fst ` set ?ra = {}"
    using Cons.prems by (auto simp: role_entry_def)
  with Cons.IH[of ?ra] Cons.prems step show ?case by simp
qed

lemma length_filter_eq_one:
  "u \<in> set xs \<Longrightarrow> distinct xs \<Longrightarrow> length (filter (\<lambda>a. a = u) xs) = 1"
  by (induction xs) (auto simp: filter_empty_conv)

lemma agents_distinct: "distinct agents"
  by (simp add: agents_def ascii_def)

lemma tags_differ: "undercover_tag \<noteq> civilian_tag"
  by (simp add: undercover_tag_def civilian_tag_def)

lemma assign_roles_eq:
  assumes "role_assignment s = []"
  shows "assign_roles s w =
           Inr (s\<lparr>role_assignment := map (role_entry s (agents ! (shd (rng w) mod length agents))) agents\<rparr>,
                w\<lparr>rng := stl (rng w)\<rparr>)"
proof -
  have "agents \<noteq> []" by (simp add: agents_def)
  then show ?thesis
    using assms assign_loop_append[OF agents_distinct, of "[]"]
    by (simp add: assign_roles_def random_choice_def)
qed

lemma map_of_role_entries:
  "map_of (map (role_entry s u) as) a = (if a \<in> set as then Some (snd (role_entry s u a)) else None)"
  by (induction as) (auto simp: role_entry_def)

lemma generate_speeches_roles:
  "generate_speeches to_str s w = Inr (s', w') \<Longrightarrow> role_assignment s' = role_assignment s"
  by (auto simp: generate_speeches_def split: sum.splits prod.splits)

lemma vote_undercover_roles:
  "vote_undercover to_str s w = Inr (s', w') \<Longrightarrow> role_assignment s' = role_assignment s"
  by (auto simp: vote_undercover_def split: sum.splits prod.splits)

lemma judge_result_roles:
  "judge_result s w = Inr (s', w') \<Longrightarrow> role_assignment s' = role_assignment s"
  using judge_result_Inr[of s w s' w'] by (simp add: verdict_role_assignment)

text \<open>
  Claim C9. On a state without roles, \<open>assign_roles\<close> returns; the player at the index
  drawn among the four fixed, pairwise different players gets the undercover role and
  word and is the only one with that role, every other player gets the civilian role and
  word; every player has a draw that makes it the undercover player; and the speech
  phase, the voting phase and the judgment leave the assignment as it is.
\<close>

theorem assign_roles_one_undercover:
  assumes "role_assignment s = []"
  shows "(\<exists>u s'. u = agents ! (shd (rng w) mod length agents) \<and> u \<in> set agents \<and>
            assign_roles s w = Inr (s', w\<lparr>rng := stl (rng w)\<rparr>) \<and>
            map fst (role_assignment s') = agents \<and>
            map_of (role_assignment s') u = Some (undercover_tag, undercover_word s) \<and>
            (\<forall>a \<in> set agents. a \<noteq> u \<longrightarrow>
               map_of (role_assignment s') a = Some (civilian_tag, civilian_word s)) \<and>
            length (filter (\<lambda>(a, (role, word)). role = undercover_tag) (role_assignment s')) = 1) \<and>
         length agents = 4 \<and> distinct agents \<and>
         (\<forall>a \<in> set agents. \<exists>n s'. assign_roles s (w\<lparr>rng := n ## rng w\<rparr>) = Inr (s', w) \<and>
            role_of s' a = Some undercover_tag) \<and>
         (\<forall>to_str t v t' v'.
            generate_speeches to_str t v = Inr (t', v') \<or> vote_undercover to_str t v = Inr (t', v') \<or>
            judge_result t v = Inr (t', v') \<longrightarrow> role_assignment t' = role_assignment t)"
proof (intro conjI ballI allI impI)
  let ?u = "agents ! (shd (rng w) mod length agents)"
  let ?s' = "s\<lparr>role_assignment := map (role_entry s ?u) agents\<rparr>"
  have len: "length agents = 4" by (simp add: agents_def)
  then have mem: "?u \<in> set agents" by (intro nth_mem) simp
  have one: "length (filter (\<lambda>(a, (role, word)). role = undercover_tag) (map (role_entry s u) as))
             = length (filter (\<lambda>a. a = u) as)" for u as
    using tags_differ by (induction as) (auto simp: role_entry_def)
  have f4: "length (filter (\<lambda>(a, (role, word)). role = undercover_tag) (role_assignment ?s')) = 1"
    using length_filter_eq_one[OF mem agents_distinct] one[of ?u agents] by simp
  have f1: "map fst (role_assignment ?s') = agents"
    by (simp add: role_entry_def comp_def)
  have f2: "map_of (role_assignment ?s') ?u = Some (undercover_tag, undercover_word s)"
    using mem by (simp add: map_of_role_entries role_entry_def)
  have f3: "\<forall>a \<in> set agents. a \<noteq> ?u \<longrightarrow>
              map_of (role_assignment ?s') a = Some (civilian_tag, civilian_word s)"
    by (simp add: map_of_role_entries role_entry_def)
  show "\<exists>u s'. u = ?u \<and> u \<in> set agents \<and>
            assign_roles s w = Inr (s', w\<lparr>rng := stl (rng w)\<rparr>) \<and>
            map fst (role_assignment s') = agents \<and>
            map_of (role_assignment s') u = Some (undercover_tag, undercover_word s) \<and>
            (\<forall>a \<in> set agents. a \<noteq> u \<longrightarrow>
               map_of (role_assignment s') a = Some (civilian_tag, civilian_word s)) \<and>
            length (filter (\<lambda>(a, (role, word)). role = undercover_tag) (role_assignment s')) = 1"
    using mem assign_roles_eq[OF assms, of w] f1 f2 f3 f4
    by (intro exI[of _ ?u] exI[of _ ?s']) blast
  show "length agents = 4" by (rule len)
  show "distinct agents" by (rule agents_distinct)
next
  fix a assume "a \<in> set agents"
  then obtain i where i: "i < length agents" "agents ! i = a" by (auto simp: in_set_conv_nth)
  show "\<exists>n s'. assign_roles s (w\<lparr>rng := n ## rng w\<rparr>) = Inr (s', w) \<and> role_of s' a = Some undercover_tag"
    using assign_roles_eq[OF assms, of "w\<lparr>rng := i ## rng w\<rparr>"] i \<open>a \<in> set agents\<close>
    by (intro exI[of _ i] exI[of _ "s\<lparr>role_assignment := map (role_entry s a) agents\<rparr>"])
       (simp add: role_of_def map_of_role_entries role_entry_def)
next
  fix to_str t v t' v'
  assume "generate_speeches to_str t v = Inr (t', v') \<or> vote_undercover to_str t v = Inr (t', v') \<or>
          judge_result t v = Inr (t', v')"
  then show "role_assignment t' = role_assignment t"
    using generate_speeches_roles vote_undercover_roles judge_result_roles by blast
qed

theorem assign_roles_one_undercover_witness:
  "role_assignment init_game_state = [] \<and>
   (\<exists>s'. assign_roles init_game_state quiet_world = Inr (s', quiet_world) \<and>
      map fst (role_assignment s') = agents \<and>
      map_of (role_assignment s') (ascii ''agent1'') = Some (undercover_tag, JStr []) \<and>
      length (filter (\<lambda>(a, (role, word)). role = undercover_tag) (role_assignment s')) = 1)"
proof -
  have h: "role_assignment init_game_state = []" by (simp add: init_game_state_def)
  have u: "agents ! (shd (rng quiet_world) mod length agents) = ascii ''agent1''"
    by (simp add: agents_def quiet_world_def)
  have q: "quiet_world\<lparr>rng := stl (rng quiet_world)\<rparr> = quiet_world"
    by (simp add: quiet_world_def)
  have w: "undercover_word init_game_state = JStr []" by (simp add: init_game_state_def)
  from assign_roles_one_undercover[OF h, of quiet_world] h show ?thesis
    unfolding u q w by blast
qed

subsection \<open>The voting phase\<close>

lemma set_dict_set: "set (dict_set d k v) \<subseteq> insert (k, v) (set d)"
  by (induction d k v rule: dict_set.induct) auto

lemma cast_vote_eq:
  "cast_vote r cur agent out w =
     (case try_vote out of
        Inr (v, reason) \<Rightarrow>
          if v = agent \<or> v \<notin> set cur then
            (case random_choice (filter (\<lambda>a. a \<noteq> agent) cur) w of
               Inl e \<Rightarrow> Inl e
             | Inr (v', w2) \<Rightarrow> Inr ((v', reason), w2))
          else Inr ((v, reason), w)
      | Inl e \<Rightarrow>
          if caught e then
            (case random_choice (filter (\<lambda>a. a \<noteq> agent) cur) w of
               Inl e' \<Rightarrow> Inl e'
             | Inr (v', w1) \<Rightarrow> Inr ((v', JStr (fallback_vote_reason r)), w1))
          else Inl e)"
proof (cases "try_vote out")
  case (Inl e)
  show ?thesis
  proof (cases "random_choice (filter (\<lambda>a. a \<noteq> agent) cur) w")
    case (Inl e')
    with \<open>try_vote out = Inl e\<close> show ?thesis by (simp add: cast_vote_def)
  next
    case (Inr vw)
    obtain v' w1 where vw: "vw = (v', w1)" by (cases vw)
    from random_choice_mem[OF Inr[unfolded vw]] have "v' \<noteq> agent \<and> v' \<in> set cur" by simp
    with \<open>try_vote out = Inl e\<close> Inr vw show ?thesis by (simp add: cast_vote_def)
  qed
next
  case (Inr vr)
  obtain v reason where "vr = (v, reason)" by (cases vr)
  with Inr show ?thesis by (simp add: cast_vote_def)
qed

lemma cast_vote_legal:
  assumes "cast_vote r cur agent out w = Inr ((vote, reason), w')"
  shows "vote \<noteq> agent \<and> vote \<in> set cur"
proof (cases "try_vote out")
  case (Inl e)
  with assms obtain w0 where "random_choice (filter (\<lambda>a. a \<noteq> agent) cur) w0 = Inr (vote, w')"
    by (auto simp: cast_vote_eq split: if_splits sum.splits)
  from random_choice_mem[OF this] show ?thesis by simp
next
  case (Inr vr)
  obtain v rsn where vr: "vr = (v, rsn)" by (cases vr)
  show ?thesis
  proof (cases "v = agent \<or> v \<notin> set cur")
    case True
    with assms Inr vr obtain w0 where "random_choice (filter (\<lambda>a. a \<noteq> agent) cur) w0 = Inr (vote, w')"
      by (auto simp: cast_vote_eq split: sum.splits)
    from random_choice_mem[OF this] show ?thesis by simp
  next
    case False
    with assms Inr vr show ?thesis by (auto simp: cast_vote_eq)
  qed
qed

lemma votes_loop_legal:
  assumes "votes_loop r ctx cur elim items vs rs w = Inr (vs', rs', w')"
    and "(voter, target) \<in> set vs'"
  shows "(voter, target) \<in> set vs \<or>
         (voter \<in> fst ` set items \<and> voter \<notin> set elim \<and> target \<noteq> voter \<and> target \<in> set cur)"
  using assms
proof (induction items arbitrary: vs rs w)
  case Nil
  then show ?case by simp
next
  case (Cons item items)
  obtain agent role word where item: "item = (agent, (role, word))" by (cases item) auto
  show ?case
  proof (cases "agent \<in> set elim")
    case True
    with Cons.prems item have "votes_loop r ctx cur elim items vs rs w = Inr (vs', rs', w')" by simp
    from Cons.IH[OF this Cons.prems(2)] show ?thesis by auto
  next
    case False
    with Cons.prems(1) item obtain out w1 vote reason w2 where
      cv: "cast_vote r cur agent out w1 = Inr ((vote, reason), w2)" and
      rest: "votes_loop r ctx cur elim items (dict_set vs agent vote) (dict_set rs agent reason) w2
               = Inr (vs', rs', w')"
      by (auto split: sum.splits prod.splits)
    from Cons.IH[OF rest Cons.prems(2)] show ?thesis
    proof
      assume "(voter, target) \<in> set (dict_set vs agent vote)"
      then have "(voter, target) = (agent, vote) \<or> (voter, target) \<in> set vs"
        using set_dict_set[of vs agent vote] by auto
      then show ?thesis
        using cast_vote_legal[OF cv] False item by auto
    next
      assume "voter \<in> fst ` set items \<and> voter \<notin> set elim \<and> target \<noteq> voter \<and> target \<in> set cur"
      then show ?thesis by auto
    qed
  qed
qed

lemma votes_loop_keys:
  assumes "votes_loop r ctx cur elim items vs rs w = Inr (vs', rs', w')"
  shows "fst ` set vs' = fst ` set vs \<union> {a \<in> fst ` set items. a \<notin> set elim}"
  using assms
proof (induction items arbitrary: vs rs w)
  case Nil
  then show ?case by simp
next
  case (Cons item items)
  obtain agent role word where item: "item = (agent, (role, word))" by (cases item) auto
  show ?case
  proof (cases "agent \<in> set elim")
    case True
    with Cons.prems item have "votes_loop r ctx cur elim items vs rs w = Inr (vs', rs', w')" by simp
    from Cons.IH[OF this] True item show ?thesis by auto
  next
    case False
    with Cons.prems(1) item obtain vote reason w2 where
      rest: "votes_loop r ctx cur elim items (dict_set vs agent vote) (dict_set rs agent reason) w2
               = Inr (vs', rs', w')"
      by (auto split: sum.splits prod.splits)
    from Cons.IH[OF rest] False item show ?thesis
      by (auto simp: keys_dict_set)
  qed
qed

lemma vote_undercover_Inr:
  assumes "vote_undercover to_str s w = Inr (s', w')"
  shows "\<exists>vs rs. votes_loop (round_no s) (speech_context to_str s) (current_agents s) (eliminated s)
                    (role_assignment s) [] [] w = Inr (vs, rs, w') \<and>
                 s' = s\<lparr>votes := vs, vote_reasoning := rs\<rparr>"
  using assms by (auto simp: vote_undercover_def split: sum.splits prod.splits)

lemma vote_undercover_legal:
  assumes "vote_undercover to_str s w = Inr (s', w')" and "(voter, target) \<in> set (votes s')"
  shows "voter \<in> set (current_agents s) \<and> target \<in> set (current_agents s) \<and> target \<noteq> voter"
proof -
  from vote_undercover_Inr[OF assms(1)] obtain vs rs where
    l: "votes_loop (round_no s) (speech_context to_str s) (current_agents s) (eliminated s)
          (role_assignment s) [] [] w = Inr (vs, rs, w')" and s': "s' = s\<lparr>votes := vs, vote_reasoning := rs\<rparr>"
    by blast
  from assms(2) s' have "(voter, target) \<in> set vs" by simp
  from votes_loop_legal[OF l this] show ?thesis by (auto simp: current_agents_def)
qed

lemma vote_undercover_keys:
  assumes "vote_undercover to_str s w = Inr (s', w')"
  shows "fst ` set (votes s') = set (current_agents s)"
proof -
  from vote_undercover_Inr[OF assms(1)] obtain vs rs where
    l: "votes_loop (round_no s) (speech_context to_str s) (current_agents s) (eliminated s)
          (role_assignment s) [] [] w = Inr (vs, rs, w')" and s': "s' = s\<lparr>votes := vs, vote_reasoning := rs\<rparr>"
    by blast
  from votes_loop_keys[OF l] s' show ?thesis by (auto simp: current_agents_def)
qed







lemma chain_invoke_quiet: "chain_invoke req quiet_world = Inr (NotJson, quiet_world)"
  by (simp add: chain_invoke_def quiet_world_def)

lemma random_choice_quiet: "xs \<noteq> [] \<Longrightarrow> random_choice xs quiet_world = Inr (hd xs, quiet_world)"
  by (cases xs) (simp_all add: random_choice_def quiet_world_def)

lemma cast_vote_quiet:
  "filter (\<lambda>a. a \<noteq> agent) cur \<noteq> [] \<Longrightarrow>
   cast_vote r cur agent NotJson quiet_world =
     Inr ((hd (filter (\<lambda>a. a \<noteq> agent) cur), JStr (fallback_vote_reason r)), quiet_world)"
  using random_choice_mem[of "filter (\<lambda>a. a \<noteq> agent) cur" quiet_world]
  by (auto simp: cast_vote_eq try_vote_def and_then_def caught_def random_choice_quiet)

lemma example_state_fields:
  "round_no example_state = 1" "eliminated example_state = []"
  "role_assignment example_state = example_roles"
  by (simp_all add: example_state_def init_game_state_def)




subsection \<open>The speech phase\<close>









lemma speeches_loop_Cons:
  assumes "speeches_loop to_str r ctx elim ((agent, (role, word)) # items) sp rs w = Inr res"
    and "agent \<notin> set elim"
  shows "\<exists>out w1 v reason.
           chain_invoke (SpeechRequest r ctx role word) w = Inr (out, w1) \<and>
           speech_of to_str r role out = Inr (v, reason) \<and>
           speeches_loop to_str r ctx elim items (dict_set sp agent v) (dict_set rs agent reason) w1 = Inr res"
  using assms by (auto split: sum.splits prod.splits)

lemma speeches_loop_keys:
  assumes "speeches_loop to_str r ctx elim items sp rs w = Inr (sp', rs', w')"
  shows "fst ` set sp' = fst ` set sp \<union> {a \<in> fst ` set items. a \<notin> set elim}"
  using assms
proof (induction items arbitrary: sp rs w)
  case Nil
  then show ?case by simp
next
  case (Cons item items)
  obtain agent role word where item: "item = (agent, (role, word))" by (cases item) auto
  show ?case
  proof (cases "agent \<in> set elim")
    case True
    with Cons.prems item have "speeches_loop to_str r ctx elim items sp rs w = Inr (sp', rs', w')" by simp
    from Cons.IH[OF this] True item show ?thesis by auto
  next
    case False
    from speeches_loop_Cons[OF Cons.prems[unfolded item] False] obtain v reason w1 where
      rest: "speeches_loop to_str r ctx elim items (dict_set sp agent v) (dict_set rs agent reason) w1
               = Inr (sp', rs', w')"
      by blast
    from Cons.IH[OF rest] False item show ?thesis
      by (auto simp: keys_dict_set)
  qed
qed



lemma generate_speeches_Inr:
  assumes "generate_speeches to_str s w = Inr (s', w')"
  shows "\<exists>sp rs. speeches_loop to_str (round_no s) (history_context to_str s) (eliminated s)
                    (role_assignment s) [] [] w = Inr (sp, rs, w') \<and>
                 s' = s\<lparr>history_speeches := history_speeches s @ [sp], speeches := sp,
                         speech_reasoning := rs\<rparr>"
  using assms by (auto simp: generate_speeches_def split: sum.splits prod.splits)

lemma generate_speeches_keys:
  assumes "generate_speeches to_str s w = Inr (s', w')"
  shows "fst ` set (speeches s') = set (current_agents s)"
proof -
  from generate_speeches_Inr[OF assms] obtain sp rs where
    l: "speeches_loop to_str (round_no s) (history_context to_str s) (eliminated s)
          (role_assignment s) [] [] w = Inr (sp, rs, w')" and
    s': "s' = s\<lparr>history_speeches := history_speeches s @ [sp], speeches := sp, speech_reasoning := rs\<rparr>"
    by blast
  from speeches_loop_keys[OF l] s' show ?thesis by (auto simp: current_agents_def)
qed








subsection \<open>The contexts\<close>

lemma history_round_without:
  "history_round to_str elim (idx, filter (\<lambda>(agent, speech). agent \<notin> set elim) rs) =
   history_round to_str elim (idx, rs)"
  by (simp add: history_round_def)

lemma history_rounds_without:
  "map (history_round to_str elim) (enumerate n (without elim hs)) =
   map (history_round to_str elim) (enumerate n hs)"
  by (induction hs arbitrary: n) (simp_all add: without_def history_round_without)

lemma history_context_without:
  "history_context to_str (s\<lparr>history_speeches := without (eliminated s) (history_speeches s)\<rparr>) =
   history_context to_str s"
proof -
  have "without (eliminated s) (history_speeches s) = [] \<longleftrightarrow> history_speeches s = []"
    by (simp add: without_def)
  then show ?thesis by (simp add: history_context_def history_rounds_without)
qed

lemma vote_history_round_without:
  assumes "set cur \<inter> set elim = {}"
  shows "vote_history_round to_str cur (idx, filter (\<lambda>(agent, speech). agent \<notin> set elim) rs) =
         vote_history_round to_str cur (idx, rs)"
proof -
  have "filter (\<lambda>(agent, speech). agent \<in> set cur) (filter (\<lambda>(agent, speech). agent \<notin> set elim) rs) =
        filter (\<lambda>(agent, speech). agent \<in> set cur) rs"
    using assms by (auto intro: filter_cong)
  then show ?thesis by (simp add: vote_history_round_def del: filter_filter)
qed

lemma vote_history_rounds_without:
  assumes "set cur \<inter> set elim = {}"
  shows "map (vote_history_round to_str cur) (enumerate n (without elim hs)) =
         map (vote_history_round to_str cur) (enumerate n hs)"
  by (induction hs arbitrary: n) (simp_all add: without_def vote_history_round_without[OF assms])

lemma current_agents_not_eliminated: "set (current_agents s) \<inter> set (eliminated s) = {}"
  by (auto simp: current_agents_def)

lemma speech_context_without:
  "speech_context to_str (s\<lparr>history_speeches := without (eliminated s) (history_speeches s)\<rparr>) =
   speech_context to_str s"
proof -
  let ?s = "s\<lparr>history_speeches := without (eliminated s) (history_speeches s)\<rparr>"
  have e: "without (eliminated s) (history_speeches s) = [] \<longleftrightarrow> history_speeches s = []"
    by (simp add: without_def)
  have c: "current_agents ?s = current_agents s" by (simp add: current_agents_def)
  have b: "butlast (without (eliminated s) (history_speeches s)) =
           without (eliminated s) (butlast (history_speeches s))"
    by (simp add: without_def map_butlast)
  show ?thesis
    unfolding speech_context_def c
    by (simp add: e b vote_history_rounds_without[OF current_agents_not_eliminated])
qed

subsection \<open>The example game\<close>

lemma speech_of_NotJson:
  "speech_of to_str r role NotJson = Inr (JStr (fallback_speech r role), JStr (fallback_reason r role))"
  by (simp add: speech_of_def try_speech_def and_then_def caught_def fallback_speech_def
      fallback_reason_def)

lemma generate_words_example:
  "generate_words init_game_state example_world =
     Inr (init_game_state\<lparr>civilian_word := JStr [0x5976, 0x8336],
                           undercover_word := JStr [0x679C, 0x6C41]\<rparr>,
          \<lparr>llm = sconst (\<lambda>req. Returns NotJson), rng = 1 ## sconst 0\<rparr>)"
  by (simp add: generate_words_def chain_invoke_def example_world_def try_words_def and_then_def
      caught_def random_choice_def fallback_pairs_def)

lemma assign_roles_example:
  "assign_roles (init_game_state\<lparr>civilian_word := JStr [0x5976, 0x8336],
                                  undercover_word := JStr [0x679C, 0x6C41]\<rparr>)
     \<lparr>llm = sconst (\<lambda>req. Returns NotJson), rng = 1 ## sconst 0\<rparr> =
   Inr (example_state, quiet_world)"
proof -
  have "role_assignment (init_game_state\<lparr>civilian_word := JStr [0x5976, 0x8336],
                                  undercover_word := JStr [0x679C, 0x6C41]\<rparr>) = []"
    by (simp add: init_game_state_def)
  from assign_roles_eq[OF this] show ?thesis
    by (simp add: agents_def role_entry_def example_state_def example_roles_def quiet_world_def
        ascii_def)
qed

lemma generate_speeches_round1:
  "generate_speeches to_str example_state quiet_world = Inr (round1_spoken, quiet_world)"
proof -
  have "speeches_loop to_str 1 ctx [] example_roles [] [] quiet_world =
          Inr (quiet_speeches 1 example_roles, quiet_reasons 1 example_roles, quiet_world)" for ctx
    by (simp add: example_roles_def chain_invoke_quiet speech_of_NotJson quiet_speeches_def
        quiet_reasons_def ascii_def)
  then show ?thesis
    unfolding generate_speeches_def example_state_fields
    by (simp add: round1_spoken_def example_state_def init_game_state_def)
qed

lemma round1_spoken_fields:
  "round_no round1_spoken = 1" "eliminated round1_spoken = []"
  "role_assignment round1_spoken = example_roles"
  by (simp_all add: round1_spoken_def example_state_fields)

lemma vote_undercover_round1:
  "vote_undercover to_str round1_spoken quiet_world = Inr (round1_voted, quiet_world)"
proof -
  have c: "current_agents round1_spoken = agents"
    by (simp add: current_agents_def round1_spoken_fields example_roles_def agents_def)
  have "votes_loop 1 ctx agents [] example_roles [] [] quiet_world =
          Inr (votes quiet_votes_state, vote_reasoning quiet_votes_state, quiet_world)" for ctx
    by (simp add: example_roles_def chain_invoke_quiet cast_vote_quiet agents_def ascii_def
        quiet_votes_state_def)
  then show ?thesis
    unfolding vote_undercover_def round1_spoken_fields c
    by (simp add: round1_voted_def)
qed

lemma judge_result_round1:
  "judge_result round1_voted quiet_world = Inr (round1_judged, quiet_world)"
proof -
  have v: "votes round1_voted = votes quiet_votes_state"
    and r: "role_assignment round1_voted = example_roles"
    and e: "eliminated round1_voted = []" and n: "round_no round1_voted = 1"
    by (simp_all add: round1_voted_def round1_spoken_fields)
  have nv: "votes round1_voted \<noteq> []" by (simp add: v quiet_votes_state_def)
  have c: "candidates round1_voted = [ascii ''agent1'']"
    by (simp add: candidates_def v quiet_votes_state_def count_votes_def tally_step_def tied_def
        ascii_def Let_def)
  have m: "map_of example_roles (ascii ''agent1'') = Some (civilian_tag, JStr [0x5976, 0x8336])"
    by (simp add: example_roles_def ascii_def)
  have vd: "verdict round1_voted (ascii ''agent1'') = round1_judged"
    by (simp add: verdict_def role_of_def r m e n current_agents_def example_roles_def
        tags_differ[symmetric] ascii_def Let_def round1_judged_def undercover_tag_def civilian_tag_def)
  have q: "quiet_world\<lparr>rng := stl (rng quiet_world)\<rparr> = quiet_world"
    by (simp add: quiet_world_def)
  show ?thesis
    using nv by (simp add: judge_result_eq c r m vd q Let_def)
qed

lemma round1_judged_fields:
  "round_no round1_judged = 2" "eliminated round1_judged = [ascii ''agent1'']"
  "role_assignment round1_judged = example_roles"
  "history_speeches round1_judged = [quiet_speeches 1 example_roles]"
  by (simp_all add: round1_judged_def round1_voted_def round1_spoken_def example_state_fields)

lemma generate_speeches_round2:
  "generate_speeches to_str round1_judged quiet_world = Inr (round2_spoken, quiet_world)"
proof -
  have "speeches_loop to_str 2 ctx [ascii ''agent1''] example_roles [] [] quiet_world =
          Inr (quiet_speeches 2 (tl example_roles), quiet_reasons 2 (tl example_roles), quiet_world)" for ctx
    by (simp add: example_roles_def chain_invoke_quiet speech_of_NotJson quiet_speeches_def
        quiet_reasons_def ascii_def)
  then show ?thesis
    unfolding generate_speeches_def round1_judged_fields
    by (simp add: round2_spoken_def)
qed

lemma round2_spoken_fields:
  "round_no round2_spoken = 2" "eliminated round2_spoken = [ascii ''agent1'']"
  "role_assignment round2_spoken = example_roles"
  by (simp_all add: round2_spoken_def round1_judged_fields)

lemma current_agents_round2:
  "current_agents round2_spoken = [ascii ''agent2'', ascii ''agent3'', ascii ''agent4'']"
  by (simp add: current_agents_def round2_spoken_fields example_roles_def ascii_def)

lemma vote_undercover_round2:
  "vote_undercover to_str round2_spoken quiet_world = Inr (round2_voted, quiet_world)"
proof -
  have "votes_loop 2 ctx [ascii ''agent2'', ascii ''agent3'', ascii ''agent4''] [ascii ''agent1'']
          example_roles [] [] quiet_world =
          Inr (votes round2_voted, vote_reasoning round2_voted, quiet_world)" for ctx
    by (simp add: example_roles_def chain_invoke_quiet cast_vote_quiet ascii_def round2_voted_def)
  then show ?thesis
    unfolding vote_undercover_def round2_spoken_fields current_agents_round2
    by (simp add: round2_voted_def)
qed

lemma judge_result_round2:
  "judge_result round2_voted quiet_world = Inr (final_state, quiet_world)"
proof -
  have v: "votes round2_voted = [(ascii ''agent2'', ascii ''agent3''), (ascii ''agent3'', ascii ''agent2''),
                              (ascii ''agent4'', ascii ''agent2'')]"
    and r: "role_assignment round2_voted = example_roles"
    and e: "eliminated round2_voted = [ascii ''agent1'']" and n: "round_no round2_voted = 2"
    by (simp_all add: round2_voted_def round2_spoken_fields)
  have nv: "votes round2_voted \<noteq> []" by (simp add: v)
  have c: "candidates round2_voted = [ascii ''agent2'']"
    by (simp add: candidates_def v count_votes_def tally_step_def tied_def ascii_def Let_def)
  have m: "map_of example_roles (ascii ''agent2'') = Some (undercover_tag, JStr [0x679C, 0x6C41])"
    by (simp add: example_roles_def ascii_def)
  have vd: "verdict round2_voted (ascii ''agent2'') = final_state"
    by (simp add: verdict_def role_of_def r m e final_state_def Let_def)
  have q: "quiet_world\<lparr>rng := stl (rng quiet_world)\<rparr> = quiet_world"
    by (simp add: quiet_world_def)
  show ?thesis
    using nv by (simp add: judge_result_eq c r m vd q Let_def)
qed

lemma run_game_example:
  "run_game 2 to_str example_world = Some (Inr (final_state, quiet_world))"
proof -
  have r1: "route round1_judged = ''generate_speeches''"
    by (simp add: route_def round1_judged_def)
  have r2: "route final_state \<noteq> ''generate_speeches''"
    by (simp add: route_def final_state_def ascii_def)
  have loop: "game_loop 2 to_str example_state quiet_world = Some (Inr (final_state, quiet_world))"
    by (simp add: numeral_2_eq_2 generate_speeches_round1 vote_undercover_round1
        judge_result_round1 r1 generate_speeches_round2 vote_undercover_round2 judge_result_round2
        r2 show_final_result_def)
  show ?thesis
    unfolding run_game_def generate_words_example sum.case prod.case assign_roles_example
    by (rule loop)
qed

text \<open>
  Claim C7, as amended. When the speech phase returns, the keys of the speeches and of
  the entry appended to the history are exactly the players active at that time, so none
  of them is eliminated; when the voting phase returns, the same holds of the keys of the
  votes; and the contexts built for the two phases are those of the history from which
  the statements of the eliminated players have been removed.
\<close>

theorem eliminated_excluded:
  assumes "generate_speeches to_str s w = Inr (s1, w1)"
    and "vote_undercover to_str t v = Inr (t2, v2)"
  shows "fst ` set (speeches s1) = set (current_agents s) \<and>
         history_speeches s1 = history_speeches s @ [speeches s1] \<and>
         eliminated s1 = eliminated s \<and>
         (\<forall>a \<in> set (eliminated s1). a \<notin> fst ` set (speeches s1) \<and>
            a \<notin> fst ` set (last (history_speeches s1))) \<and>
         fst ` set (votes t2) = set (current_agents t) \<and>
         eliminated t2 = eliminated t \<and>
         (\<forall>a \<in> set (eliminated t2). a \<notin> fst ` set (votes t2)) \<and>
         history_context to_str (s\<lparr>history_speeches := without (eliminated s) (history_speeches s)\<rparr>) =
           history_context to_str s \<and>
         speech_context to_str (t\<lparr>history_speeches := without (eliminated t) (history_speeches t)\<rparr>) =
           speech_context to_str t"
proof -
  have k1: "fst ` set (speeches s1) = set (current_agents s)"
    by (rule generate_speeches_keys[OF assms(1)])
  have h1: "history_speeches s1 = history_speeches s @ [speeches s1]" and e1: "eliminated s1 = eliminated s"
    using generate_speeches_Inr[OF assms(1)] by auto
  have k2: "fst ` set (votes t2) = set (current_agents t)"
    by (rule vote_undercover_keys[OF assms(2)])
  have e2: "eliminated t2 = eliminated t"
    using vote_undercover_Inr[OF assms(2)] by auto
  have n1: "\<forall>a \<in> set (eliminated s1). a \<notin> fst ` set (speeches s1) \<and>
            a \<notin> fst ` set (last (history_speeches s1))"
    unfolding h1 k1 e1 last_snoc using current_agents_not_eliminated[of s] by auto
  have n2: "\<forall>a \<in> set (eliminated t2). a \<notin> fst ` set (votes t2)"
    unfolding k2 e2 using current_agents_not_eliminated[of t] by auto
  from k1 h1 e1 n1 k2 e2 n2 history_context_without speech_context_without
  show ?thesis by (intro conjI)
qed

theorem eliminated_excluded_witness:
  "generate_speeches (\<lambda>v. []) round1_judged quiet_world = Inr (round2_spoken, quiet_world) \<and>
   vote_undercover (\<lambda>v. []) round2_spoken quiet_world = Inr (round2_voted, quiet_world) \<and>
   eliminated round2_spoken = [ascii ''agent1''] \<and>
   ascii ''agent1'' \<notin> fst ` set (speeches round2_spoken) \<and>
   ascii ''agent1'' \<notin> fst ` set (last (history_speeches round2_spoken)) \<and>
   ascii ''agent1'' \<notin> fst ` set (votes round2_voted)"
proof -
  note L = eliminated_excluded[OF generate_speeches_round2 vote_undercover_round2]
  have e: "eliminated round2_spoken = [ascii ''agent1'']" by (rule round2_spoken_fields)
  have e2: "eliminated round2_voted = [ascii ''agent1'']"
    by (simp add: round2_voted_def round2_spoken_fields)
  from L[THEN conjunct2, THEN conjunct2, THEN conjunct2, THEN conjunct1]
  have a: "ascii ''agent1'' \<notin> fst ` set (speeches round2_spoken) \<and>
        ascii ''agent1'' \<notin> fst ` set (last (history_speeches round2_spoken))"
    unfolding e by simp
  from L[THEN conjunct2, THEN conjunct2, THEN conjunct2, THEN conjunct2, THEN conjunct2,
         THEN conjunct2, THEN conjunct1]
  have b: "ascii ''agent1'' \<notin> fst ` set (votes round2_voted)"
    unfolding e2 by simp
  from generate_speeches_round2 vote_undercover_round2 e a b show ?thesis by simp
qed

text \<open>
  Claim C7 as stated fails: in the state after the first judgment of the example game,
  which eliminates agent1, agent1 is still a key of the speeches and of the votes.
\<close>

theorem eliminated_excluded_counterexample:
  "run_game 2 (\<lambda>v. []) example_world = Some (Inr (final_state, quiet_world)) \<and>
   judge_result round1_voted quiet_world = Inr (round1_judged, quiet_world) \<and>
   ascii ''agent1'' \<in> set (eliminated round1_judged) \<and>
   ascii ''agent1'' \<in> fst ` set (speeches round1_judged) \<and>
   ascii ''agent1'' \<in> fst ` set (votes round1_judged) \<and>
   ascii ''agent2'' \<in> set (eliminated final_state) \<and>
   ascii ''agent2'' \<in> fst ` set (speeches final_state) \<and>
   ascii ''agent2'' \<in> fst ` set (votes final_state)"
proof -
  have "ascii ''agent1'' \<in> set (eliminated round1_judged)"
    by (simp add: round1_judged_def)
  moreover have "ascii ''agent1'' \<in> fst ` set (speeches round1_judged)"
    by (simp add: round1_judged_def round1_voted_def round1_spoken_def quiet_speeches_def
        example_roles_def)
  moreover have "ascii ''agent1'' \<in> fst ` set (votes round1_judged)"
    by (simp add: round1_judged_def round1_voted_def quiet_votes_state_def)
  moreover have "ascii ''agent2'' \<in> set (eliminated final_state)"
    by (simp add: final_state_def)
  moreover have "ascii ''agent2'' \<in> fst ` set (speeches final_state)"
    by (simp add: final_state_def round2_voted_def round2_spoken_def quiet_speeches_def
        example_roles_def)
  moreover have "ascii ''agent2'' \<in> fst ` set (votes final_state)"
    by (simp add: final_state_def round2_voted_def)
  ultimately show ?thesis
    using run_game_example judge_result_round1 by simp
qed

subsection \<open>Termination of the game\<close>

lemma holders_verdict: "holders (verdict s e) tag = holders s tag - {e}"
  by (auto simp: holders_def current_agents_verdict role_of_verdict)

lemma holders_finite: "finite (holders s tag)"
  by (simp add: holders_def)

lemma holders_disjoint: "a \<in> holders s civilian_tag \<Longrightarrow> a \<notin> holders s undercover_tag"
  using tags_differ by (auto simp: holders_def)

lemma role_of_active:
  assumes "roles_ok s" and "e \<in> set (current_agents s)"
  shows "e \<in> holders s undercover_tag \<or> e \<in> holders s civilian_tag"
proof -
  from assms(2) have "e \<in> fst ` set (role_assignment s)" by (auto simp: current_agents_def)
  then obtain role word where m: "(e, (role, word)) \<in> set (role_assignment s)" by force
  with assms(1) have "map_of (role_assignment s) e = Some (role, word)"
    by (simp add: roles_ok_def)
  moreover from m assms(1) have "role = undercover_tag \<or> role = civilian_tag"
    by (auto simp: roles_ok_def)
  ultimately show ?thesis using assms(2) by (auto simp: holders_def role_of_def)
qed

lemma verdict_cards:
  assumes "distinct (map fst (role_assignment s))"
  shows "verdict s e =
     (if role_of s e = Some undercover_tag
      then s\<lparr>eliminated := eliminated s @ [e], game_status := ascii ''end'', winner := ascii ''civilian''\<rparr>
      else if card (holders s civilian_tag - {e}) = 1 \<and> card (holders s undercover_tag - {e}) = 1
      then s\<lparr>eliminated := eliminated s @ [e], game_status := ascii ''end'', winner := ascii ''undercover''\<rparr>
      else s\<lparr>eliminated := eliminated s @ [e], game_status := ascii ''running'',
               round_no := round_no s + 1\<rparr>)"
proof -
  let ?s1 = "s\<lparr>eliminated := eliminated s @ [e]\<rparr>"
  have ca: "current_agents ?s1 = filter (\<lambda>a. a \<noteq> e) (current_agents s)"
    by (auto simp: current_agents_def intro: filter_cong)
  have d: "distinct (current_agents ?s1)"
    using assms by (simp add: current_agents_def)
  have "length (filter (\<lambda>a. role_of s a = Some tag) (current_agents ?s1)) = card (holders s tag - {e})" for tag
  proof -
    have "{a \<in> set (current_agents ?s1). role_of s a = Some tag} = holders s tag - {e}"
      unfolding ca by (auto simp: holders_def)
    then show ?thesis using d by (simp add: length_filter_card)
  qed
  then show ?thesis by (simp add: verdict_def Let_def)
qed

text \<open>One judgment on a state with at least two civilians and the undercover player still active.\<close>

lemma judgment_step:
  assumes ok: "roles_ok s"
    and uc: "card (holders s undercover_tag) = 1"
    and civ: "card (holders s civilian_tag) = Suc c" and pos: "0 < c"
    and e: "e \<in> set (current_agents s)"
  shows "(game_status (verdict s e) = ascii ''end'' \<and>
            (winner (verdict s e) = ascii ''civilian'' \<or> winner (verdict s e) = ascii ''undercover'') \<and>
            round_no (verdict s e) = round_no s) \<or>
         (1 < c \<and> game_status (verdict s e) = ascii ''running'' \<and>
            round_no (verdict s e) = round_no s + 1 \<and>
            card (holders (verdict s e) undercover_tag) = 1 \<and>
            card (holders (verdict s e) civilian_tag) = c)"
proof -
  have d: "distinct (map fst (role_assignment s))" using ok by (simp add: roles_ok_def)
  note v = verdict_cards[OF d, of e]
  show ?thesis
  proof (cases "role_of s e = Some undercover_tag")
    case True
    then show ?thesis by (simp add: v)
  next
    case False
    with role_of_active[OF ok e] e have ec: "e \<in> holders s civilian_tag"
      by (auto simp: holders_def)
    then have eu: "e \<notin> holders s undercover_tag" by (rule holders_disjoint)
    have c1: "card (holders s civilian_tag - {e}) = c"
      using ec civ holders_finite[of s civilian_tag] by simp
    have u1: "card (holders s undercover_tag - {e}) = 1"
      using eu uc by simp
    show ?thesis
    proof (cases "c = 1")
      case True
      with False c1 u1 show ?thesis by (simp add: v)
    next
      case neq: False
      with pos have "1 < c" by simp
      moreover have "game_status (verdict s e) = ascii ''running'' \<and>
                     round_no (verdict s e) = round_no s + 1"
        using False neq c1 u1 by (simp add: v)
      moreover have "card (holders (verdict s e) undercover_tag) = 1 \<and>
                     card (holders (verdict s e) civilian_tag) = c"
        using c1 u1 by (simp add: holders_verdict)
      ultimately show ?thesis by simp
    qed
  qed
qed

text \<open>What the speech and voting phases hand to the judgment.\<close>

lemma generate_speeches_frame:
  assumes "generate_speeches to_str s w = Inr (s', w')"
  shows "role_assignment s' = role_assignment s \<and> eliminated s' = eliminated s \<and>
         round_no s' = round_no s \<and> game_status s' = game_status s \<and> winner s' = winner s"
  using generate_speeches_Inr[OF assms] by auto

lemma vote_undercover_frame:
  assumes "vote_undercover to_str s w = Inr (s', w')"
  shows "role_assignment s' = role_assignment s \<and> eliminated s' = eliminated s \<and>
         round_no s' = round_no s \<and> game_status s' = game_status s \<and> winner s' = winner s"
  using vote_undercover_Inr[OF assms] by auto

lemma holders_frame:
  assumes "role_assignment s' = role_assignment s" and "eliminated s' = eliminated s"
  shows "holders s' tag = holders s tag" and "current_agents s' = current_agents s"
    and "roles_ok s' = roles_ok s"
  using assms by (simp_all add: holders_def current_agents_def role_of_def roles_ok_def)

lemma judge_result_active:
  assumes "judge_result s w = Inr (s', w')"
    and "snd ` set (votes s) \<subseteq> set (current_agents s)"
  shows "\<exists>e \<in> set (current_agents s). s' = verdict s e"
proof -
  from judge_result_Inr[OF assms(1)] have nv: "votes s \<noteq> []"
    and s': "s' = verdict s (candidates s ! (shd (rng w) mod length (candidates s)))" by auto
  have "candidates s ! (shd (rng w) mod length (candidates s)) \<in> set (candidates s)"
    using candidates_nonempty[OF nv] by simp
  with candidates_targets[OF nv] assms(2) s' show ?thesis by auto
qed

text \<open>One round: it ends with an exception, or ends the game, or leaves one civilian less.\<close>

lemma round_step:
  assumes ok: "roles_ok s"
    and uc: "card (holders s undercover_tag) = 1"
    and civ: "card (holders s civilian_tag) = Suc c" and pos: "0 < c"
    and g: "generate_speeches to_str s w = Inr (s1, w1)"
    and v: "vote_undercover to_str s1 w1 = Inr (s2, w2)"
    and j: "judge_result s2 w2 = Inr (s3, w3)"
  shows "roles_ok s3 \<and> length (eliminated s3) = Suc (length (eliminated s)) \<and>
         ((game_status s3 = ascii ''end'' \<and>
             (winner s3 = ascii ''civilian'' \<or> winner s3 = ascii ''undercover'') \<and>
             round_no s3 = round_no s) \<or>
          (1 < c \<and> game_status s3 = ascii ''running'' \<and> round_no s3 = round_no s + 1 \<and>
             card (holders s3 undercover_tag) = 1 \<and> card (holders s3 civilian_tag) = c))"
proof -
  note f1 = generate_speeches_frame[OF g]
  note f2 = vote_undercover_frame[OF v]
  have ra: "role_assignment s2 = role_assignment s" and el: "eliminated s2 = eliminated s"
    and rn: "round_no s2 = round_no s"
    using f1 f2 by simp_all
  note h = holders_frame[OF ra el]
  have tg: "snd ` set (votes s2) \<subseteq> set (current_agents s2)"
    using vote_undercover_legal[OF v] holders_frame(2)[of s2 s1] f2 by fastforce
  from judge_result_active[OF j tg] obtain e where e: "e \<in> set (current_agents s2)"
    and s3: "s3 = verdict s2 e" by blast
  have ok2: "roles_ok s2" using ok h(3) by simp
  have "roles_ok s3"
    using ok2 by (simp add: s3 roles_ok_def verdict_role_assignment)
  moreover have "length (eliminated s3) = Suc (length (eliminated s))"
    by (simp add: s3 verdict_eliminated el)
  moreover have "card (holders s2 undercover_tag) = 1" "card (holders s2 civilian_tag) = Suc c"
    using uc civ h(1) by simp_all
  from judgment_step[OF ok2 this pos e] have
    "(game_status s3 = ascii ''end'' \<and>
        (winner s3 = ascii ''civilian'' \<or> winner s3 = ascii ''undercover'') \<and>
        round_no s3 = round_no s) \<or>
     (1 < c \<and> game_status s3 = ascii ''running'' \<and> round_no s3 = round_no s + 1 \<and>
        card (holders s3 undercover_tag) = 1 \<and> card (holders s3 civilian_tag) = c)"
    unfolding s3 rn .
  ultimately show ?thesis by simp
qed

lemma status_end_not_running: "ascii ''end'' \<noteq> ascii ''running''"
  by (simp add: ascii_def)

text \<open>
  With the undercover player and \<open>c + 1 \<ge> 2\<close> civilians active, the cycle comes to its
  end within \<open>c\<close> rounds, whatever the service and the random generator do.
\<close>

lemma game_loop_bounded:
  assumes "roles_ok s" and "card (holders s undercover_tag) = 1"
    and "card (holders s civilian_tag) = Suc c" and "0 < c"
  shows "\<exists>res. (\<forall>k. game_loop (c + k) to_str s w = Some res) \<and>
           (\<forall>s' w'. res = Inr (s', w') \<longrightarrow>
              game_status s' = ascii ''end'' \<and>
              (winner s' = ascii ''civilian'' \<or> winner s' = ascii ''undercover'') \<and>
              length (eliminated s) < length (eliminated s') \<and>
              length (eliminated s') \<le> length (eliminated s) + c \<and>
              round_no s \<le> round_no s' \<and> round_no s' < round_no s + int c)"
  using assms
proof (induction c arbitrary: s w)
  case 0
  then show ?case by simp
next
  case (Suc c)
  show ?case
  proof (cases "generate_speeches to_str s w")
    case (Inl e)
    then show ?thesis by (intro exI[of _ "Inl e"]) simp
  next
    case g: (Inr sw1)
    obtain s1 w1 where sw1: "sw1 = (s1, w1)" by (cases sw1)
    show ?thesis
    proof (cases "vote_undercover to_str s1 w1")
      case (Inl e)
      with g sw1 show ?thesis by (intro exI[of _ "Inl e"]) simp
    next
      case v: (Inr sw2)
      obtain s2 w2 where sw2: "sw2 = (s2, w2)" by (cases sw2)
      show ?thesis
      proof (cases "judge_result s2 w2")
        case (Inl e)
        with g sw1 v sw2 show ?thesis by (intro exI[of _ "Inl e"]) simp
      next
        case j: (Inr sw3)
        obtain s3 w3 where sw3: "sw3 = (s3, w3)" by (cases sw3)
        have step: "game_loop (Suc c + k) to_str s w =
                      (if route s3 = ''generate_speeches'' then game_loop (c + k) to_str s3 w3
                       else Some (Inr (show_final_result s3, w3)))" for k
          using g sw1 v sw2 j sw3 by simp
        note rs = round_step[OF Suc.prems(1,2,3) _ g[unfolded sw1] v[unfolded sw2] j[unfolded sw3]]
        from rs have ok3: "roles_ok s3" and len: "length (eliminated s3) = Suc (length (eliminated s))"
          by simp_all
        from rs consider
          (ended) "game_status s3 = ascii ''end''"
            "winner s3 = ascii ''civilian'' \<or> winner s3 = ascii ''undercover''"
            "round_no s3 = round_no s"
          | (running) "1 < Suc c" "game_status s3 = ascii ''running''" "round_no s3 = round_no s + 1"
            "card (holders s3 undercover_tag) = 1" "card (holders s3 civilian_tag) = Suc c"
          by auto
        then show ?thesis
        proof cases
          case ended
          then have "route s3 \<noteq> ''generate_speeches''"
            by (simp add: route_def status_end_not_running)
          with step have "\<forall>k. game_loop (Suc c + k) to_str s w = Some (Inr (s3, w3))"
            by (simp add: show_final_result_def)
          then show ?thesis
            using ended len by (intro exI[of _ "Inr (s3, w3)"]) simp
        next
          case running
          then have "0 < c" by simp
          from Suc.IH[OF ok3 running(4,5) this, of w3] obtain res where
            r: "\<forall>k. game_loop (c + k) to_str s3 w3 = Some res" and
            p: "\<forall>s' w'. res = Inr (s', w') \<longrightarrow>
                  game_status s' = ascii ''end'' \<and>
                  (winner s' = ascii ''civilian'' \<or> winner s' = ascii ''undercover'') \<and>
                  length (eliminated s3) < length (eliminated s') \<and>
                  length (eliminated s') \<le> length (eliminated s3) + c \<and>
                  round_no s3 \<le> round_no s' \<and> round_no s' < round_no s3 + int c"
            by blast
          from running have "route s3 = ''generate_speeches''" by (simp add: route_def)
          with step r have "\<forall>k. game_loop (Suc c + k) to_str s w = Some res" by simp
          moreover have "\<forall>s' w'. res = Inr (s', w') \<longrightarrow>
              game_status s' = ascii ''end'' \<and>
              (winner s' = ascii ''civilian'' \<or> winner s' = ascii ''undercover'') \<and>
              length (eliminated s) < length (eliminated s') \<and>
              length (eliminated s') \<le> length (eliminated s) + Suc c \<and>
              round_no s \<le> round_no s' \<and> round_no s' < round_no s + int (Suc c)"
            using p len running(3) by fastforce
          ultimately show ?thesis by blast
        qed
      qed
    qed
  qed
qed

lemma generate_words_frame:
  assumes "generate_words s w = Inr (s', w')"
  shows "role_assignment s' = role_assignment s \<and> eliminated s' = eliminated s \<and>
         round_no s' = round_no s"
  using assms by (auto simp: generate_words_def split: sum.splits prod.splits if_splits)

lemma start_of_game:
  assumes "generate_words init_game_state w = Inr (s1, w1)" and "assign_roles s1 w1 = Inr (s2, w2)"
  shows "roles_ok s2 \<and> card (holders s2 undercover_tag) = 1 \<and>
         card (holders s2 civilian_tag) = 3 \<and> eliminated s2 = [] \<and> round_no s2 = 1"
proof -
  from generate_words_frame[OF assms(1)] have
    r1: "role_assignment s1 = []" and e1: "eliminated s1 = []" and n1: "round_no s1 = 1"
    by (simp_all add: init_game_state_def)
  define u where "u = agents ! (shd (rng w1) mod length agents)"
  have len: "length agents = 4" by (simp add: agents_def)
  then have mem: "u \<in> set agents" unfolding u_def by (intro nth_mem) simp
  from assms(2) assign_roles_eq[OF r1, of w1] have
    s2: "s2 = s1\<lparr>role_assignment := map (role_entry s1 u) agents\<rparr>"
    by (simp add: u_def)
  have km: "map fst (map (role_entry s1 u) as) = as" for as
    by (induction as) (simp_all add: role_entry_def)
  have keys: "map fst (role_assignment s2) = agents"
    unfolding s2 using km[of agents] by simp
  have ok: "roles_ok s2"
    unfolding roles_ok_def keys using agents_distinct by (auto simp: s2 role_entry_def)
  have e2: "eliminated s2 = []" by (simp add: s2 e1)
  have ca: "current_agents s2 = agents"
    unfolding current_agents_def keys e2 by simp
  have ro: "role_of s2 a = (if a \<in> set agents then Some (if a = u then undercover_tag else civilian_tag)
                           else None)" for a
    by (simp add: role_of_def s2 map_of_role_entries role_entry_def)
  have hu: "holders s2 undercover_tag = {u}"
    using mem tags_differ by (auto simp: holders_def ca ro)
  have hc: "holders s2 civilian_tag = set agents - {u}"
    using tags_differ by (auto simp: holders_def ca ro)
  have "card (set agents) = 4" using agents_distinct len by (simp add: distinct_card)
  then have "card (set agents - {u}) = 3" using mem by simp
  with ok hu hc show ?thesis by (simp add: s2 e1 n1)
qed

text \<open>
  Claim C10. In the four-player game, whatever the service and the random generator do,
  the run ends within two rounds: with any bound of at least 2 rounds the run has the
  same result, which is an exception or a final state; in a final state the game has
  ended, one side has won, one or two players have been eliminated (one for each
  judgment), and the round counter is 1 or 2. For a judgment on legal votes, with the
  undercover player and at least two civilians active, either the game ends or there is
  one active civilian less.
\<close>

theorem game_terminates:
  "(\<exists>res. (\<forall>n \<ge> 2. run_game n to_str w = Some res) \<and>
      (\<forall>s' w'. res = Inr (s', w') \<longrightarrow>
         game_status s' = ascii ''end'' \<and>
         (winner s' = ascii ''civilian'' \<or> winner s' = ascii ''undercover'') \<and>
         1 \<le> length (eliminated s') \<and> length (eliminated s') \<le> 2 \<and>
         1 \<le> round_no s' \<and> round_no s' \<le> 2)) \<and>
   (\<forall>s v s' v' c.
      roles_ok s \<and> card (holders s undercover_tag) = 1 \<and> card (holders s civilian_tag) = Suc c \<and>
      0 < c \<and> snd ` set (votes s) \<subseteq> set (current_agents s) \<and> judge_result s v = Inr (s', v') \<longrightarrow>
      game_status s' = ascii ''end'' \<or>
      card (holders s' civilian_tag) < card (holders s civilian_tag))"
proof (intro conjI allI impI)
  show "\<exists>res. (\<forall>n \<ge> 2. run_game n to_str w = Some res) \<and>
      (\<forall>s' w'. res = Inr (s', w') \<longrightarrow>
         game_status s' = ascii ''end'' \<and>
         (winner s' = ascii ''civilian'' \<or> winner s' = ascii ''undercover'') \<and>
         1 \<le> length (eliminated s') \<and> length (eliminated s') \<le> 2 \<and>
         1 \<le> round_no s' \<and> round_no s' \<le> 2)"
  proof (cases "generate_words init_game_state w")
    case (Inl e)
    then show ?thesis by (intro exI[of _ "Inl e"]) (simp add: run_game_def)
  next
    case g: (Inr sw1)
    obtain s1 w1 where sw1: "sw1 = (s1, w1)" by (cases sw1)
    show ?thesis
    proof (cases "assign_roles s1 w1")
      case (Inl e)
      with g sw1 show ?thesis by (intro exI[of _ "Inl e"]) (simp add: run_game_def)
    next
      case a: (Inr sw2)
      obtain s2 w2 where sw2: "sw2 = (s2, w2)" by (cases sw2)
      from start_of_game[OF g[unfolded sw1] a[unfolded sw2]] have
        ok: "roles_ok s2" and uc: "card (holders s2 undercover_tag) = 1" and
        civ: "card (holders s2 civilian_tag) = Suc 2" and e: "eliminated s2 = []" and
        n: "round_no s2 = 1"
        by simp_all
      from game_loop_bounded[OF ok uc civ, of to_str w2] obtain res where
        r: "\<forall>k. game_loop (2 + k) to_str s2 w2 = Some res" and
        p: "\<forall>s' w'. res = Inr (s', w') \<longrightarrow>
              game_status s' = ascii ''end'' \<and>
              (winner s' = ascii ''civilian'' \<or> winner s' = ascii ''undercover'') \<and>
              length (eliminated s2) < length (eliminated s') \<and>
              length (eliminated s') \<le> length (eliminated s2) + 2 \<and>
              round_no s2 \<le> round_no s' \<and> round_no s' < round_no s2 + int 2"
        by auto
      have "\<forall>n \<ge> 2. run_game n to_str w = Some res"
      proof (intro allI impI)
        fix n :: nat assume "2 \<le> n"
        then obtain k where "n = 2 + k" using le_Suc_ex by blast
        with r g sw1 a sw2 show "run_game n to_str w = Some res"
          by (simp add: run_game_def)
      qed
      moreover have "\<forall>s' w'. res = Inr (s', w') \<longrightarrow>
         game_status s' = ascii ''end'' \<and>
         (winner s' = ascii ''civilian'' \<or> winner s' = ascii ''undercover'') \<and>
         1 \<le> length (eliminated s') \<and> length (eliminated s') \<le> 2 \<and>
         1 \<le> round_no s' \<and> round_no s' \<le> 2"
      proof (intro allI impI)
        fix s' w' assume "res = Inr (s', w')"
        with p have "game_status s' = ascii ''end''"
          "winner s' = ascii ''civilian'' \<or> winner s' = ascii ''undercover''"
          "length (eliminated s2) < length (eliminated s')"
          "length (eliminated s') \<le> length (eliminated s2) + 2"
          "round_no s2 \<le> round_no s'" "round_no s' < round_no s2 + int 2"
          by blast+
        then show "game_status s' = ascii ''end'' \<and>
         (winner s' = ascii ''civilian'' \<or> winner s' = ascii ''undercover'') \<and>
         1 \<le> length (eliminated s') \<and> length (eliminated s') \<le> 2 \<and>
         1 \<le> round_no s' \<and> round_no s' \<le> 2"
          using e n by (simp add: Suc_le_eq)
      qed
      ultimately show ?thesis by blast
    qed
  qed
next
  fix s v s' v' c
  assume h: "roles_ok s \<and> card (holders s undercover_tag) = 1 \<and> card (holders s civilian_tag) = Suc c \<and>
      0 < c \<and> snd ` set (votes s) \<subseteq> set (current_agents s) \<and> judge_result s v = Inr (s', v')"
  then obtain e where e: "e \<in> set (current_agents s)" and s': "s' = verdict s e"
    using judge_result_active[of s v s' v'] by blast
  from h judgment_step[of s c e, OF _ _ _ _ e]
  show "game_status s' = ascii ''end'' \<or> card (holders s' civilian_tag) < card (holders s civilian_tag)"
    unfolding s' by auto
qed

theorem game_terminates_witness:
  "run_game 2 (\<lambda>v. []) example_world = Some (Inr (final_state, quiet_world)) \<and>
   game_status final_state = ascii ''end'' \<and> winner final_state = ascii ''civilian'' \<and>
   length (eliminated final_state) = 2 \<and> round_no final_state = 2"
proof -
  from game_terminates[of "\<lambda>v. []" example_world] obtain res where
    r: "\<forall>n \<ge> 2. run_game n (\<lambda>v. []) example_world = Some res" and
    p: "\<forall>s' w'. res = Inr (s', w') \<longrightarrow>
         game_status s' = ascii ''end'' \<and>
         (winner s' = ascii ''civilian'' \<or> winner s' = ascii ''undercover'') \<and>
         1 \<le> length (eliminated s') \<and> length (eliminated s') \<le> 2 \<and>
         1 \<le> round_no s' \<and> round_no s' \<le> 2"
    by blast
  from r have "run_game 2 (\<lambda>v. []) example_world = Some res" by simp
  with run_game_example have "res = Inr (final_state, quiet_world)" by simp
  with p have "game_status final_state = ascii ''end''" by blast
  moreover have "winner final_state = ascii ''civilian''" "length (eliminated final_state) = 2"
    "round_no final_state = 2"
    by (simp_all add: final_state_def round2_voted_def round2_spoken_fields)
  ultimately show ?thesis using run_game_example by simp
qed

end
